theory Spec2Isabelle
  imports Complex_Main "HOL-Library.AList" "HOL-Library.Log_Nat"
begin

section \<open>Scroll Control: the colour contrast resolver\<close>

subsection \<open>JavaScript numbers\<close>

text \<open>
  \<^verbatim>\<open>getContrastColor\<close> computes with JavaScript numbers, which are IEEE-754 doubles.
  The values that arise there are \<^verbatim>\<open>NaN\<close> (from a failed \<^verbatim>\<open>parseInt\<close>) and finite doubles
  that are zero or of magnitude between \<open>2\<^sup>-\<^sup>6\<^sup>4\<close> and \<open>2\<^sup>9\<close>, far inside the normal range:
  no overflow, underflow or subnormal number arises. A finite double is held as the
  rational number it denotes (the sign of a zero is not kept: it does not change a
  comparison); every arithmetic operation rounds its exact result to the nearest number
  with a 53-bit significand, ties to even.
\<close>

datatype number = NaN | Num rat

definition pow2 :: "int \<Rightarrow> rat" where
  "pow2 e = (if 0 \<le> e then 2 ^ nat e else 1 / 2 ^ nat (- e))"

definition round_half_even :: "rat \<Rightarrow> int" where
  "round_half_even q =
     (let f = \<lfloor>q\<rfloor>; d = q - of_int f
      in if d < 1/2 then f else if 1/2 < d then f + 1 else if even f then f else f + 1)"

text \<open>The binary exponent of a positive rational: \<open>2\<^sup>e \<le> x < 2\<^sup>e\<^sup>+\<^sup>1\<close>.\<close>

definition exponent :: "rat \<Rightarrow> int" where
  "exponent x =
     (let (p, q) = quotient_of x; k = bitlen p - bitlen q
      in if pow2 k \<le> x then k else k - 1)"

definition round_double :: "rat \<Rightarrow> rat" where
  "round_double x =
     (if x = 0 then 0
      else let u = pow2 (exponent \<bar>x\<bar> - 52)
           in of_int (round_half_even (x / u)) * u)"

fun number_mul :: "number \<Rightarrow> number \<Rightarrow> number" where
  "number_mul (Num a) (Num b) = Num (round_double (a * b))"
| "number_mul _ _ = NaN"

fun number_add :: "number \<Rightarrow> number \<Rightarrow> number" where
  "number_add (Num a) (Num b) = Num (round_double (a + b))"
| "number_add _ _ = NaN"

text \<open>The only divisor in the program is the literal \<^verbatim>\<open>255\<close>; a zero divisor does not occur.\<close>

fun number_div :: "number \<Rightarrow> number \<Rightarrow> number" where
  "number_div (Num a) (Num b) = (if b = 0 then NaN else Num (round_double (a / b)))"
| "number_div _ _ = NaN"

text \<open>\<^verbatim>\<open>x > y\<close>: false as soon as one side is \<^verbatim>\<open>NaN\<close>.\<close>

fun number_gt :: "number \<Rightarrow> number \<Rightarrow> bool" where
  "number_gt (Num a) (Num b) = (b < a)"
| "number_gt _ _ = False"

text \<open>A decimal literal of the source denotes the double nearest to it.\<close>

definition literal :: "rat \<Rightarrow> number" where
  "literal q = Num (round_double q)"

subsection \<open>Strings, \<^verbatim>\<open>substring\<close> and \<^verbatim>\<open>parseInt(_, 16)\<close>\<close>

text \<open>
  A string is a list of code units; \<^typ>\<open>char\<close> stands for the code units below 256.
  \<^verbatim>\<open>s.substring(i, j)\<close> with \<open>0 \<le> i \<le> j\<close> clamps both indices to the length.
\<close>

definition substring :: "string \<Rightarrow> nat \<Rightarrow> nat \<Rightarrow> string" where
  "substring s i j = take (j - i) (drop i s)"

definition isStrWhiteSpaceChar :: "char \<Rightarrow> bool" where
  "isStrWhiteSpaceChar c = (of_char c \<in> {9, 10, 11, 12, 13, 32, 160 :: nat})"

definition isHexDigit :: "char \<Rightarrow> bool" where
  "isHexDigit c =
     (let n = of_char c :: nat
      in (48 \<le> n \<and> n \<le> 57) \<or> (97 \<le> n \<and> n \<le> 102) \<or> (65 \<le> n \<and> n \<le> 70))"

definition hexDigitValue :: "char \<Rightarrow> int" where
  "hexDigitValue c =
     (let n = of_char c :: nat
      in if n \<le> 57 then int n - 48 else if 97 \<le> n then int n - 87 else int n - 55)"

text \<open>
  \<^verbatim>\<open>parseInt(s, 16)\<close>: skip leading white space, read a sign, skip a \<^verbatim>\<open>0x\<close> prefix, read
  the longest run of hexadecimal digits; no digit at all gives \<^verbatim>\<open>NaN\<close>. The program
  applies it to substrings of at most two characters, so the integer read is exactly a
  double.
\<close>

definition parseInt16 :: "string \<Rightarrow> number" where
  "parseInt16 s =
     (let s1 = dropWhile isStrWhiteSpaceChar s;
          sign = (case s1 of c # _ \<Rightarrow> if c = CHR ''-'' then - 1 else 1 | [] \<Rightarrow> (1 :: int));
          s2 = (case s1 of c # t \<Rightarrow> if c = CHR ''-'' \<or> c = CHR ''+'' then t else s1 | [] \<Rightarrow> s1);
          s3 = (case s2 of c # x # t \<Rightarrow>
                  if c = CHR ''0'' \<and> (x = CHR ''x'' \<or> x = CHR ''X'') then t else s2
                | _ \<Rightarrow> s2);
          z = takeWhile isHexDigit s3
      in if z = [] then NaN
         else Num (of_int (sign * foldl (\<lambda>acc c. 16 * acc + hexDigitValue c) 0 z)))"

subsection \<open>\<^verbatim>\<open>getContrastColor\<close>\<close>

definition getContrastColor :: "string \<Rightarrow> string" where
  "getContrastColor hexColor =
     (if hexColor = [] \<or> length hexColor < 4 then ''#000000''
      else
        let hexColor =
              (if length hexColor = 4
               then ''#'' @ [hexColor ! 1] @ [hexColor ! 1] @ [hexColor ! 2] @ [hexColor ! 2]
                      @ [hexColor ! 3] @ [hexColor ! 3]
               else hexColor);
            r = parseInt16 (substring hexColor 1 3);
            g = parseInt16 (substring hexColor 3 5);
            b = parseInt16 (substring hexColor 5 7);
            luminance =
              number_div
                (number_add
                   (number_add (number_mul (literal (299/1000)) r)
                               (number_mul (literal (587/1000)) g))
                   (number_mul (literal (114/1000)) b))
                (Num 255)
        in if number_gt luminance (Num (1/2)) then ''#000000'' else ''#FFFFFF'')"

text \<open>
  The quantities the specification names: the byte written by two hexadecimal digits, and
  the luminance \<^verbatim>\<open>(0.299 * R + 0.587 * G + 0.114 * B) / 255\<close> of three bytes, evaluated in
  double arithmetic from left to right as JavaScript does.
\<close>

definition hexByte :: "char \<Rightarrow> char \<Rightarrow> int" where
  "hexByte hi lo = 16 * hexDigitValue hi + hexDigitValue lo"

definition luminance :: "int \<Rightarrow> int \<Rightarrow> int \<Rightarrow> rat" where
  "luminance R G B =
     round_double
       (round_double
          (round_double (round_double (round_double (299/1000) * of_int R)
                         + round_double (round_double (587/1000) * of_int G))
           + round_double (round_double (114/1000) * of_int B))
        / 255)"

section \<open>Scroll Control: settings and overlay buttons\<close>

datatype buttonSize = Small | Medium | Large

record ScrollControlSettings =
  showScrollTopButton :: bool
  showScrollBottomButton :: bool
  buttonSize :: buttonSize
  buttonColor :: string
  useCustomColor :: bool
  animationSpeed :: int
  useAnimations :: bool
  invertButtonOrder :: bool
  buttonSpacing :: int
  horizontalPadding :: int
  verticalPadding :: int

definition DEFAULT_SETTINGS :: ScrollControlSettings where
  "DEFAULT_SETTINGS =
     \<lparr> showScrollTopButton = True, showScrollBottomButton = True, buttonSize = Medium,
       buttonColor = ''#666666'', useCustomColor = False, animationSpeed = 300,
       useAnimations = True, invertButtonOrder = False, buttonSpacing = 12,
       horizontalPadding = 20, verticalPadding = 40 \<rparr>"

text \<open>
  Object identities. A \<^verbatim>\<open>WorkspaceLeaf\<close> and a host DOM element are opaque handles of the
  host; a node created by the plugin is named by its index in the list of nodes the
  plugin has created, so that a new node never coincides with an older one.
\<close>

type_synonym leaf = nat
type_synonym element = nat
type_synonym node = nat

datatype position = Top | Bottom

datatype icon = ScrollTopIcon | ScrollBottomIcon

text \<open>
  A button element as \<^verbatim>\<open>createButton\<close> leaves it: its classes, the two inline style
  properties it may assign, the icon with its \<^verbatim>\<open>stroke\<close> attribute, the \<^verbatim>\<open>aria-label\<close>, and
  the click listener \<^verbatim>\<open>scrollToPosition(position, view)\<close> for the view of a leaf.
\<close>

record button_el =
  button_classes :: "string list"
  style_backgroundColor :: "string option"
  style_color :: "string option"
  svg_icon :: icon
  svg_stroke :: "string option"
  aria_label :: string
  on_click :: "position \<times> leaf"

text \<open>An overlay container: the \<^verbatim>\<open>div\<close> that \<^verbatim>\<open>addButtonsToLeaf\<close> creates.\<close>

record container_el =
  parent :: "element option"
  classes :: "string list"
  children :: "button_el list"

text \<open>
  The style node. Its text is the stylesheet template of \<^verbatim>\<open>updateStyle\<close>, determined by
  the four numbers interpolated into it (horizontal padding, vertical padding, button
  spacing, animation speed).
\<close>

record style_el =
  in_head :: bool
  id_attribute :: "string option"
  textContent :: "(int \<times> int \<times> int \<times> int) option"

text \<open>
  The plugin object: its fields, and the nodes it has created (\<open>divs\<close> for
  \<^verbatim>\<open>document.createElement('div')\<close> in \<^verbatim>\<open>addButtonsToLeaf\<close>, \<open>styles\<close> for
  \<^verbatim>\<open>document.createElement('style')\<close>). \<open>leafButtonContainers\<close> is a JavaScript \<^verbatim>\<open>Map\<close>,
  kept as the list of its entries in insertion order.
\<close>

record plugin =
  settings :: ScrollControlSettings
  leafButtonContainers :: "(leaf \<times> node) list"
  styleEl :: "node option"
  divs :: "container_el list"
  styles :: "style_el list"

text \<open>
  What the plugin reads from the host: \<^verbatim>\<open>app.workspace.getLeavesOfType('markdown')\<close>,
  \<^verbatim>\<open>app.workspace.activeLeaf\<close>, whether \<^verbatim>\<open>leaf.view instanceof MarkdownView\<close>, and the result
  of \<^verbatim>\<open>view.containerEl.querySelector('.view-content')\<close>.
\<close>

record workspace =
  getLeavesOfType_markdown :: "leaf list"
  activeLeaf :: "leaf option"
  isMarkdownView :: "leaf \<Rightarrow> bool"
  viewContent :: "leaf \<Rightarrow> element option"

definition initial :: plugin where
  "initial = \<lparr> settings = DEFAULT_SETTINGS, leafButtonContainers = [], styleEl = None,
               divs = [], styles = [] \<rparr>"

subsection \<open>DOM primitives\<close>

definition addClass :: "string \<Rightarrow> string list \<Rightarrow> string list" where
  "addClass cls cs = (if cls \<in> set cs then cs else cs @ [cls])"

definition removeClass :: "string \<Rightarrow> string list \<Rightarrow> string list" where
  "removeClass cls cs = filter (\<lambda>c. c \<noteq> cls) cs"

definition toggleClass :: "string \<Rightarrow> bool \<Rightarrow> string list \<Rightarrow> string list" where
  "toggleClass cls v cs = (if v then addClass cls cs else removeClass cls cs)"

definition update_div :: "node \<Rightarrow> (container_el \<Rightarrow> container_el) \<Rightarrow> plugin \<Rightarrow> plugin" where
  "update_div n f s = s\<lparr> divs := (divs s)[n := f (divs s ! n)] \<rparr>"

definition update_style :: "node \<Rightarrow> (style_el \<Rightarrow> style_el) \<Rightarrow> plugin \<Rightarrow> plugin" where
  "update_style n f s = s\<lparr> styles := (styles s)[n := f (styles s ! n)] \<rparr>"

definition createElement_div :: "plugin \<Rightarrow> node \<times> plugin" where
  "createElement_div s =
     (length (divs s),
      s\<lparr> divs := divs s @ [\<lparr> parent = None, classes = [], children = [] \<rparr>] \<rparr>)"

definition createElement_style :: "plugin \<Rightarrow> node \<times> plugin" where
  "createElement_style s =
     (length (styles s),
      s\<lparr> styles := styles s @ [\<lparr> in_head = False, id_attribute = None, textContent = None \<rparr>] \<rparr>)"

text \<open>\<^verbatim>\<open>new Set(array)\<close>: the distinct elements, each at its first occurrence.\<close>

definition newSet :: "'a list \<Rightarrow> 'a list" where
  "newSet xs = rev (remdups (rev xs))"

subsection \<open>\<^verbatim>\<open>createFloatingButtons\<close>\<close>

definition sizeClass :: "buttonSize \<Rightarrow> string" where
  "sizeClass z = (case z of Small \<Rightarrow> ''scroll-control-button-small''
                  | Medium \<Rightarrow> ''scroll-control-button-medium''
                  | Large \<Rightarrow> ''scroll-control-button-large'')"

text \<open>A button descriptor: icon, tooltip, the position its callback scrolls to, order.\<close>

type_synonym descriptor = "icon \<times> string \<times> position \<times> int"

definition createButton :: "ScrollControlSettings \<Rightarrow> leaf \<Rightarrow> descriptor \<Rightarrow> button_el" where
  "createButton st lf d =
     (case d of (iconSvg, tooltip, pos, _) \<Rightarrow>
        let cs0 = addClass (sizeClass (buttonSize st)) (addClass ''scroll-control-button'' []);
            cs1 = (if useAnimations st then addClass ''scroll-control-button-animated'' cs0 else cs0);
            iconColor = (if useCustomColor st then getContrastColor (buttonColor st)
                         else ''currentColor'')
        in \<lparr> button_classes =
               (if useCustomColor st then addClass ''scroll-control-button-custom'' cs1
                else addClass ''scroll-control-button-default'' cs1),
             style_backgroundColor = (if useCustomColor st then Some (buttonColor st) else None),
             style_color = (if useCustomColor st then Some iconColor else None),
             svg_icon = iconSvg,
             svg_stroke = (if iconColor \<noteq> ''currentColor'' then Some iconColor else None),
             aria_label = tooltip,
             on_click = (pos, lf) \<rparr>)"

definition buttonDescriptors :: "ScrollControlSettings \<Rightarrow> descriptor list" where
  "buttonDescriptors st =
     (let buttons0 =
            (if showScrollTopButton st
             then [(ScrollTopIcon, ''Scroll to Top'', Top, if invertButtonOrder st then 1 else 0)]
             else []);
          buttons1 =
            (if showScrollBottomButton st
             then buttons0 @
                  [(ScrollBottomIcon, ''Scroll to Bottom'', Bottom,
                    if invertButtonOrder st then 0 else 1)]
             else buttons0)
      in sort_key (\<lambda>(_, _, _, order). order) buttons1)"

definition createFloatingButtons :: "node \<Rightarrow> leaf \<Rightarrow> plugin \<Rightarrow> plugin" where
  "createFloatingButtons container lf s =
     update_div container
       (\<lambda>c. c\<lparr> children := map (createButton (settings s) lf) (buttonDescriptors (settings s)) \<rparr>)
       s"

subsection \<open>The pane lifecycle tracker\<close>

definition updateSingleLeafVisibility :: "workspace \<Rightarrow> leaf \<Rightarrow> plugin \<Rightarrow> plugin" where
  "updateSingleLeafVisibility w lf s =
     (case map_of (leafButtonContainers s) lf of
        None \<Rightarrow> s
      | Some container \<Rightarrow>
          let isActive = (activeLeaf w = Some lf)
          in update_div container
               (\<lambda>c. c\<lparr> classes := toggleClass ''scroll-control-hidden'' (\<not> isActive)
                                     (toggleClass ''scroll-control-visible'' isActive (classes c)) \<rparr>)
               s)"

definition addButtonsToLeaf :: "workspace \<Rightarrow> leaf \<Rightarrow> plugin \<Rightarrow> plugin" where
  "addButtonsToLeaf w lf s =
     (if \<not> isMarkdownView w lf \<or> lf \<in> fst ` set (leafButtonContainers s) then s
      else
        let (container, s1) = createElement_div s;
            s2 = update_div container
                   (\<lambda>c. c\<lparr> classes := addClass ''scroll-control-button-container'' (classes c) \<rparr>) s1
        in case viewContent w lf of
             None \<Rightarrow> s2
           | Some vc \<Rightarrow>
               let s3 = update_div container (\<lambda>c. c\<lparr> parent := Some vc \<rparr>) s2;
                   s4 = s3\<lparr> leafButtonContainers :=
                             AList.update lf container (leafButtonContainers s3) \<rparr>;
                   s5 = createFloatingButtons container lf s4
               in updateSingleLeafVisibility w lf s5)"

definition removeButtonsFromLeaf :: "leaf \<Rightarrow> plugin \<Rightarrow> plugin" where
  "removeButtonsFromLeaf lf s =
     (case map_of (leafButtonContainers s) lf of
        None \<Rightarrow> s
      | Some container \<Rightarrow>
          (update_div container (\<lambda>c. c\<lparr> parent := None \<rparr>) s)
            \<lparr> leafButtonContainers := AList.delete lf (leafButtonContainers s) \<rparr>)"

definition initializeAllButtons :: "workspace \<Rightarrow> plugin \<Rightarrow> plugin" where
  "initializeAllButtons w s = fold (addButtonsToLeaf w) (getLeavesOfType_markdown w) s"

definition updateAllButtons :: "workspace \<Rightarrow> plugin \<Rightarrow> plugin" where
  "updateAllButtons w s =
     fold (\<lambda>lf s. addButtonsToLeaf w lf (removeButtonsFromLeaf lf s))
       (getLeavesOfType_markdown w) s"

text \<open>The function that \<^verbatim>\<open>handleLayoutChange\<close> debounces: one reconciliation.\<close>

definition handleLayoutChange :: "workspace \<Rightarrow> plugin \<Rightarrow> plugin" where
  "handleLayoutChange w s =
     (let currentLeaves = newSet (getLeavesOfType_markdown w);
          knownLeaves = newSet (map fst (leafButtonContainers s));
          s1 = fold (\<lambda>lf s. if lf \<notin> set knownLeaves then addButtonsToLeaf w lf s else s)
                 currentLeaves s
      in fold (\<lambda>lf s. if lf \<notin> set currentLeaves then removeButtonsFromLeaf lf s else s)
           knownLeaves s1)"

definition handleActiveLeafChange :: "workspace \<Rightarrow> leaf option \<Rightarrow> plugin \<Rightarrow> plugin" where
  "handleActiveLeafChange w active s =
     fold (\<lambda>(lf, container) s.
             if isMarkdownView w lf
             then let shouldBeVisible = (Some lf = active)
                  in update_div container
                       (\<lambda>c. c\<lparr> classes :=
                                 toggleClass ''scroll-control-hidden'' (\<not> shouldBeVisible)
                                   (toggleClass ''scroll-control-visible'' shouldBeVisible
                                      (classes c)) \<rparr>)
                       s
             else s)
       (leafButtonContainers s) s"

subsection \<open>The style node and deactivation\<close>

definition updateStyle :: "plugin \<Rightarrow> plugin" where
  "updateStyle s =
     (case styleEl s of
        None \<Rightarrow> s
      | Some e \<Rightarrow>
          update_style e
            (\<lambda>t. t\<lparr> textContent :=
                      Some (horizontalPadding (settings s), verticalPadding (settings s),
                            buttonSpacing (settings s), animationSpeed (settings s)) \<rparr>)
            s)"

definition addStyle :: "plugin \<Rightarrow> plugin" where
  "addStyle s =
     (let s0 = (case styleEl s of None \<Rightarrow> s
                | Some e \<Rightarrow> update_style e (\<lambda>t. t\<lparr> in_head := False \<rparr>) s);
          (e, s1) = createElement_style s0;
          s2 = s1\<lparr> styleEl := Some e \<rparr>;
          s3 = update_style e (\<lambda>t. t\<lparr> id_attribute := Some ''scroll-control-styles'' \<rparr>) s2;
          s4 = update_style e (\<lambda>t. t\<lparr> in_head := True \<rparr>) s3
      in updateStyle s4)"

definition onunload :: "plugin \<Rightarrow> plugin" where
  "onunload s =
     (let s1 = fold (\<lambda>(lf, container) s. update_div container (\<lambda>c. c\<lparr> parent := None \<rparr>) s)
                 (leafButtonContainers s) s;
          s2 = s1\<lparr> leafButtonContainers := [] \<rparr>;
          s3 = (case styleEl s2 of None \<Rightarrow> s2
                | Some e \<Rightarrow> update_style e (\<lambda>t. t\<lparr> in_head := False \<rparr>) s2)
      in s3\<lparr> styleEl := None \<rparr>)"

section \<open>Scroll Control: the scroll actuator\<close>

datatype viewMode = Source | Preview

text \<open>
  What \<^verbatim>\<open>scrollToPosition\<close> reads from a \<^verbatim>\<open>MarkdownView\<close>: \<^verbatim>\<open>getMode()\<close>,
  \<^verbatim>\<open>editor.lineCount()\<close>, and the \<^verbatim>\<open>scrollHeight\<close> of the element that
  \<^verbatim>\<open>previewMode.containerEl.querySelector('.markdown-preview-view')\<close> finds, if any.
\<close>

record MarkdownView =
  getMode :: viewMode
  lineCount :: int
  previewEl_scrollHeight :: "int option"

datatype scrollBehavior = Smooth | Auto

text \<open>
  The one call the function makes on the host:
  \<^verbatim>\<open>editor.scrollIntoView({from: {line, ch}, to: {line, ch}}, center)\<close> or
  \<^verbatim>\<open>previewEl.scrollTo({top, behavior})\<close>.
\<close>

datatype scrollCall =
    EditorScrollIntoView int int int int bool
  | PreviewScrollTo int scrollBehavior

definition scrollToPosition ::
  "ScrollControlSettings \<Rightarrow> position \<Rightarrow> MarkdownView option \<Rightarrow> scrollCall option" where
  "scrollToPosition st pos view =
     (case view of
        None \<Rightarrow> None
      | Some v \<Rightarrow>
          if getMode v = Source
          then let line = (if pos = Top then 0 else lineCount v - 1)
               in Some (EditorScrollIntoView line 0 line 0 True)
          else (case previewEl_scrollHeight v of
                  None \<Rightarrow> None
                | Some scrollHeight \<Rightarrow>
                    Some (PreviewScrollTo (if pos = Top then 0 else scrollHeight)
                            (if useAnimations st then Smooth else Auto))))"

section \<open>Notions used in the properties\<close>

text \<open>The relative error of one rounding to a double is at most \<open>2\<^sup>-\<^sup>5\<^sup>3\<close>.\<close>

definition ulp_bound :: rat where
  "ulp_bound = 1 / 2 ^ 53"

text \<open>The tracked panes: the keys of \<^verbatim>\<open>leafButtonContainers\<close>.\<close>

definition tracked :: "plugin \<Rightarrow> leaf set" where
  "tracked s = fst ` set (leafButtonContainers s)"

text \<open>
  A pane can receive an overlay when its view is a \<^verbatim>\<open>MarkdownView\<close> and the
  \<^verbatim>\<open>.view-content\<close> element is found.
\<close>

definition resolvable :: "workspace \<Rightarrow> leaf \<Rightarrow> bool" where
  "resolvable w lf = (isMarkdownView w lf \<and> viewContent w lf \<noteq> None)"

text \<open>
  The representation invariant of the tracker. The \<^verbatim>\<open>Map\<close> has one entry per key; every
  pane has a container of its own; a tracked container exists and is attached; an attached
  container is tracked; and the only style node in the document head is \<^verbatim>\<open>styleEl\<close>.
  It holds initially and every operation of the plugin preserves it (lemmas
  \<open>tracker_inv_initial\<close> to \<open>tracker_inv_addStyle\<close> below).
\<close>

definition tracker_inv :: "plugin \<Rightarrow> bool" where
  "tracker_inv s \<longleftrightarrow>
     distinct (map fst (leafButtonContainers s)) \<and>
     distinct (map snd (leafButtonContainers s)) \<and>
     (\<forall>c \<in> snd ` set (leafButtonContainers s).
         c < length (divs s) \<and> parent (divs s ! c) \<noteq> None) \<and>
     (\<forall>i < length (divs s).
         parent (divs s ! i) \<noteq> None \<longrightarrow> i \<in> snd ` set (leafButtonContainers s)) \<and>
     (\<forall>i < length (styles s). in_head (styles s ! i) \<longrightarrow> styleEl s = Some i)"

text \<open>An overlay is marked visible, or hidden, by the two classes the handlers toggle.\<close>

definition is_visible :: "container_el \<Rightarrow> bool" where
  "is_visible c \<longleftrightarrow> ''scroll-control-visible'' \<in> set (classes c) \<and>
                    ''scroll-control-hidden'' \<notin> set (classes c)"

definition is_hidden :: "container_el \<Rightarrow> bool" where
  "is_hidden c \<longleftrightarrow> ''scroll-control-hidden'' \<in> set (classes c) \<and>
                   ''scroll-control-visible'' \<notin> set (classes c)"

text \<open>
  Two devices for the proofs: the pair of class toggles as one function, and the shape
  shared by the two \<^verbatim>\<open>forEach\<close> loops over the entries of the \<^verbatim>\<open>Map\<close>.
\<close>

definition set_visibility :: "bool \<Rightarrow> container_el \<Rightarrow> container_el" where
  "set_visibility v =
     (\<lambda>c. c\<lparr> classes := toggleClass ''scroll-control-hidden'' (\<not> v)
                           (toggleClass ''scroll-control-visible'' v (classes c)) \<rparr>)"

definition update_entries ::
  "(leaf \<Rightarrow> bool) \<Rightarrow> (leaf \<Rightarrow> container_el \<Rightarrow> container_el) \<Rightarrow> (leaf \<times> node) list
     \<Rightarrow> plugin \<Rightarrow> plugin" where
  "update_entries P F es s =
     fold (\<lambda>(lf, container) s. if P lf then update_div container (F lf) s else s) es s"

subsection \<open>Example workspaces\<close>

text \<open>
  Two open Markdown panes, the first one focused; the plugin state after activation in
  that workspace; the same workspace after the first leaf has navigated to a file that is
  not Markdown (its view is replaced, the debounced reconciliation has not run yet) and the
  focus has moved; the workspace where both leaves are still listed as Markdown leaves but
  the view of the first is not a \<^verbatim>\<open>MarkdownView\<close> instance any more; and a later workspace
  where pane 1 is closed, panes 3 and 4 are new and the \<^verbatim>\<open>.view-content\<close> element of pane 3
  is not found.
\<close>

definition two_panes :: workspace where
  "two_panes = \<lparr> getLeavesOfType_markdown = [1, 2], activeLeaf = Some 1,
                 isMarkdownView = (\<lambda>_. True), viewContent = (\<lambda>lf. Some (10 + lf)) \<rparr>"

definition two_panes_tracked :: plugin where
  "two_panes_tracked = initializeAllButtons two_panes (addStyle initial)"

definition two_panes_first_replaced :: workspace where
  "two_panes_first_replaced =
     \<lparr> getLeavesOfType_markdown = [2], activeLeaf = Some 2,
       isMarkdownView = (\<lambda>lf. lf \<noteq> 1), viewContent = (\<lambda>lf. Some (10 + lf)) \<rparr>"

definition two_panes_first_unloaded :: workspace where
  "two_panes_first_unloaded =
     \<lparr> getLeavesOfType_markdown = [1, 2], activeLeaf = Some 2,
       isMarkdownView = (\<lambda>lf. lf \<noteq> 1), viewContent = (\<lambda>lf. Some (10 + lf)) \<rparr>"

definition three_panes_one_unresolved :: workspace where
  "three_panes_one_unresolved =
     \<lparr> getLeavesOfType_markdown = [2, 3, 4], activeLeaf = Some 2,
       isMarkdownView = (\<lambda>_. True),
       viewContent = (\<lambda>lf. if lf = 3 then None else Some (10 + lf)) \<rparr>"

section \<open>Properties of the colour contrast resolver\<close>

subsection \<open>Rounding\<close>

lemma pow2_powi: "pow2 e = 2 powi e"
  by (simp add: pow2_def power_int_def inverse_eq_divide power_one_over)

lemma pow2_pos: "0 < pow2 e"
  by (simp add: pow2_powi)

lemma exponent_le:
  assumes "0 < x"
  shows "pow2 (exponent x) \<le> x"
proof -
  obtain p q where pq: "quotient_of x = (p, q)" by (cases "quotient_of x")
  have q: "0 < q" using pq by (rule quotient_of_denom_pos)
  have x: "x = of_int p / of_int q" using pq by (rule quotient_of_div)
  have p: "0 < p" using assms q x by (simp add: zero_less_divide_iff)
  let ?k = "bitlen p - bitlen q"
  show ?thesis
  proof (cases "pow2 ?k \<le> x")
    case True
    then show ?thesis by (simp add: exponent_def pq)
  next
    case False
    have bp: "(2 :: int) ^ nat (bitlen p - 1) \<le> p" and bq: "q < 2 ^ nat (bitlen q)"
      using bitlen_bounds [OF p] bitlen_bounds [OF q] by simp_all
    have lp: "1 \<le> bitlen p" using p by (auto simp: bitlen_alt_def)
    have "(2 :: rat) powi (bitlen p - 1) \<le> of_int p"
    proof -
      have "(2 :: rat) ^ nat (bitlen p - 1) \<le> of_int p"
        using bp by (metis of_int_le_iff of_int_numeral of_int_power)
      then show ?thesis using lp by (simp add: power_int_def)
    qed
    moreover have "of_int q \<le> (2 :: rat) powi bitlen q"
    proof -
      have "(of_int q :: rat) < 2 ^ nat (bitlen q)"
        using bq by (metis of_int_less_iff of_int_numeral of_int_power)
      then show ?thesis using bitlen_nonneg [of q] by (simp add: power_int_def)
    qed
    ultimately have "(2 :: rat) powi (bitlen p - 1) / 2 powi bitlen q \<le> of_int p / of_int q"
      using q p by (intro frac_le) simp_all
    moreover have idx: "?k - 1 = (bitlen p - 1) - bitlen q" by simp
    have "(2 :: rat) powi (?k - 1) = 2 powi (bitlen p - 1) / 2 powi bitlen q"
      unfolding idx by (rule power_int_diff) simp
    ultimately have "(2 :: rat) powi (?k - 1) \<le> x"
      by (simp only: x)
    with False show ?thesis by (simp add: exponent_def pq pow2_powi)
  qed
qed

lemma round_half_even_error: "\<bar>of_int (round_half_even q) - q\<bar> \<le> 1/2"
proof -
  define f where "f = \<lfloor>q\<rfloor>"
  define d where "d = q - of_int f"
  have "of_int f \<le> q" "q < of_int f + 1"
    unfolding f_def by linarith+
  then have d: "0 \<le> d" "d < 1" and q: "q = of_int f + d"
    by (simp_all add: d_def)
  have "round_half_even q =
          (if d < 1/2 then f else if 1/2 < d then f + 1 else if even f then f else f + 1)"
    by (simp add: round_half_even_def f_def d_def)
  then show ?thesis
    using d by (auto simp: q)
qed

lemma round_double_error:
  assumes "0 \<le> x"
  shows "\<bar>round_double x - x\<bar> \<le> ulp_bound * x"
proof (cases "x = 0")
  case True
  then show ?thesis by (simp add: round_double_def)
next
  case False
  with assms have pos: "0 < x" by simp
  define u where "u = pow2 (exponent \<bar>x\<bar> - 52)"
  have u: "0 < u" by (simp add: u_def pow2_pos)
  have rd: "round_double x = of_int (round_half_even (x / u)) * u"
    using False by (simp add: round_double_def u_def Let_def)
  have "round_double x - x = (of_int (round_half_even (x / u)) - x / u) * u"
    using u by (simp add: rd left_diff_distrib)
  then have "\<bar>round_double x - x\<bar> = \<bar>of_int (round_half_even (x / u)) - x / u\<bar> * u"
    using u by (simp add: abs_mult)
  also have "\<dots> \<le> 1/2 * u"
    using round_half_even_error [of "x / u"] u by (intro mult_right_mono) simp_all
  also have "1/2 * u = pow2 (exponent x) * ulp_bound"
    using pos by (simp add: u_def pow2_powi power_int_diff ulp_bound_def)
  also have "\<dots> \<le> x * ulp_bound"
    using exponent_le [OF pos] by (intro mult_right_mono) (simp_all add: ulp_bound_def)
  finally show ?thesis by (simp add: mult.commute)
qed

lemma round_double_lower:
  assumes "0 \<le> y" "0 \<le> c" "c \<le> 1" "c * y \<le> x"
  shows "(c - ulp_bound) * y \<le> round_double x"
proof -
  have u: "0 \<le> ulp_bound" "ulp_bound \<le> 1" by (simp_all add: ulp_bound_def)
  have x: "0 \<le> x" using assms by (meson mult_nonneg_nonneg order_trans)
  have "c * y \<le> y" using mult_right_mono [OF assms(3) assms(1)] by simp
  then have "ulp_bound * (c * y) \<le> ulp_bound * y" using u(1) by (rule mult_left_mono)
  moreover have "(1 - ulp_bound) * (c * y) \<le> (1 - ulp_bound) * x"
    using assms(4) u(2) by (intro mult_left_mono) simp_all
  moreover have "x - ulp_bound * x \<le> round_double x"
    using round_double_error [OF x] by (simp add: abs_le_iff)
  ultimately show ?thesis by (simp add: algebra_simps)
qed

lemma round_double_upper:
  assumes "0 \<le> y" "0 \<le> x" "c \<le> 2" "x \<le> c * y"
  shows "round_double x \<le> (c + 2 * ulp_bound) * y"
proof -
  have u: "0 \<le> ulp_bound" by (simp add: ulp_bound_def)
  have "c * y \<le> 2 * y" using assms(3) assms(1) by (rule mult_right_mono)
  then have "ulp_bound * (c * y) \<le> ulp_bound * (2 * y)" using u by (rule mult_left_mono)
  moreover have "(1 + ulp_bound) * x \<le> (1 + ulp_bound) * (c * y)"
    using assms(4) u by (intro mult_left_mono) simp_all
  moreover have "round_double x \<le> x + ulp_bound * x"
    using round_double_error [OF assms(2)] by (simp add: abs_le_iff)
  ultimately show ?thesis by (simp add: algebra_simps)
qed

lemma luminance_bounds:
  assumes "0 \<le> R" "0 \<le> G" "0 \<le> B"
  defines "y \<equiv> of_int (299 * R + 587 * G + 114 * B) / 255000"
  shows "(1 - 5 * ulp_bound) * y \<le> luminance R G B"
    and "luminance R G B \<le> (1 + 10 * ulp_bound) * y"
proof -
  define r g b :: rat where "r = of_int R" and "g = of_int G" and "b = of_int B"
  have nn: "0 \<le> r" "0 \<le> g" "0 \<le> b" using assms by (simp_all add: r_def g_def b_def)
  define a1 a2 a3 where "a1 = round_double (299/1000)" and "a2 = round_double (587/1000)"
    and "a3 = round_double (114/1000)"
  define p1 p2 p3 where "p1 = round_double (a1 * r)" and "p2 = round_double (a2 * g)"
    and "p3 = round_double (a3 * b)"
  define s1 s2 where "s1 = round_double (p1 + p2)" and "s2 = round_double (s1 + p3)"
  have lum: "luminance R G B = round_double (s2 / 255)"
    by (simp add: luminance_def s2_def s1_def p1_def p2_def p3_def a1_def a2_def a3_def
        r_def g_def b_def)
  have y: "y = (299 * r + 587 * g + 114 * b) / 255000"
    by (simp add: y_def r_def g_def b_def)
  note [simp] = ulp_bound_def
  have a_lo: "(1 - ulp_bound) * (299/1000) \<le> a1" "(1 - ulp_bound) * (587/1000) \<le> a2"
    "(1 - ulp_bound) * (114/1000) \<le> a3"
    unfolding a1_def a2_def a3_def by (rule round_double_lower; simp)+
  have a_hi: "a1 \<le> (1 + 2 * ulp_bound) * (299/1000)" "a2 \<le> (1 + 2 * ulp_bound) * (587/1000)"
    "a3 \<le> (1 + 2 * ulp_bound) * (114/1000)"
    unfolding a1_def a2_def a3_def by (rule round_double_upper; simp)+
  have a_nn: "0 \<le> a1" "0 \<le> a2" "0 \<le> a3" using a_lo by simp_all
  have p_lo: "(1 - ulp_bound - ulp_bound) * (299/1000 * r) \<le> p1"
    "(1 - ulp_bound - ulp_bound) * (587/1000 * g) \<le> p2"
    "(1 - ulp_bound - ulp_bound) * (114/1000 * b) \<le> p3"
    unfolding p1_def p2_def p3_def
    using mult_right_mono [OF a_lo(1) nn(1)] mult_right_mono [OF a_lo(2) nn(2)]
      mult_right_mono [OF a_lo(3) nn(3)] nn
    by (intro round_double_lower; simp)+
  have p_hi: "p1 \<le> (1 + 2 * ulp_bound + 2 * ulp_bound) * (299/1000 * r)"
    "p2 \<le> (1 + 2 * ulp_bound + 2 * ulp_bound) * (587/1000 * g)"
    "p3 \<le> (1 + 2 * ulp_bound + 2 * ulp_bound) * (114/1000 * b)"
    unfolding p1_def p2_def p3_def
    using mult_right_mono [OF a_hi(1) nn(1)] mult_right_mono [OF a_hi(2) nn(2)]
      mult_right_mono [OF a_hi(3) nn(3)] nn a_nn
    by (intro round_double_upper; simp)+
  have p_nn: "0 \<le> p1" "0 \<le> p2" "0 \<le> p3" using p_lo nn by simp_all
  have s1_lo: "(1 - 2 * ulp_bound - ulp_bound) * (299/1000 * r + 587/1000 * g) \<le> s1"
    unfolding s1_def using p_lo nn by (intro round_double_lower) simp_all
  have s1_hi: "s1 \<le> (1 + 4 * ulp_bound + 2 * ulp_bound) * (299/1000 * r + 587/1000 * g)"
    unfolding s1_def using p_hi nn p_nn by (intro round_double_upper) simp_all
  have s1_nn: "0 \<le> s1" using s1_lo nn by simp
  have s2_lo: "(1 - 3 * ulp_bound - ulp_bound) * (299/1000 * r + 587/1000 * g + 114/1000 * b) \<le> s2"
    unfolding s2_def using s1_lo p_lo(3) nn by (intro round_double_lower) simp_all
  have s2_hi: "s2 \<le> (1 + 6 * ulp_bound + 2 * ulp_bound) * (299/1000 * r + 587/1000 * g + 114/1000 * b)"
    unfolding s2_def using s1_hi p_hi(3) nn p_nn s1_nn by (intro round_double_upper) simp_all
  have s2_nn: "0 \<le> s2" using s2_lo nn by simp
  show "(1 - 5 * ulp_bound) * y \<le> luminance R G B"
  proof -
    have "(1 - 4 * ulp_bound - ulp_bound) * y \<le> round_double (s2 / 255)"
      using s2_lo nn by (intro round_double_lower) (simp_all add: y)
    then show ?thesis by (simp add: lum)
  qed
  show "luminance R G B \<le> (1 + 10 * ulp_bound) * y"
  proof -
    have "round_double (s2 / 255) \<le> (1 + 8 * ulp_bound + 2 * ulp_bound) * y"
      using s2_hi nn s2_nn by (intro round_double_upper) (simp_all add: y)
    then show ?thesis by (simp add: lum)
  qed
qed

lemma luminance_above:
  assumes "0 \<le> R" "0 \<le> G" "0 \<le> B" "127500 < 299 * R + 587 * G + 114 * B"
  shows "1/2 < luminance R G B"
proof -
  have "(127501 :: rat) \<le> of_int (299 * R + 587 * G + 114 * B)"
  proof -
    have "127501 \<le> 299 * R + 587 * G + 114 * B" using assms(4) by linarith
    then have "(of_int 127501 :: rat) \<le> of_int (299 * R + 587 * G + 114 * B)"
      by (simp only: of_int_le_iff)
    then show ?thesis by simp
  qed
  with luminance_bounds(1) [OF assms(1-3)] show ?thesis
    by (simp add: ulp_bound_def)
qed

lemma luminance_below:
  assumes "0 \<le> R" "0 \<le> G" "0 \<le> B" "299 * R + 587 * G + 114 * B < 127500"
  shows "luminance R G B < 1/2"
proof -
  have "of_int (299 * R + 587 * G + 114 * B) \<le> (127499 :: rat)"
  proof -
    have "299 * R + 587 * G + 114 * B \<le> 127499" using assms(4) by linarith
    then have "(of_int (299 * R + 587 * G + 114 * B) :: rat) \<le> of_int 127499"
      by (simp only: of_int_le_iff)
    then show ?thesis by simp
  qed
  with luminance_bounds(2) [OF assms(1-3)] show ?thesis
    by (simp add: ulp_bound_def)
qed

subsection \<open>Parsing and the result\<close>

lemma isHexDigit_plain:
  assumes "isHexDigit c"
  shows "\<not> isStrWhiteSpaceChar c" "c \<noteq> CHR ''-''" "c \<noteq> CHR ''+''"
    "c \<noteq> CHR ''x''" "c \<noteq> CHR ''X''"
  using assms by (auto simp: isHexDigit_def isStrWhiteSpaceChar_def Let_def)

lemma parseInt16_two_digits:
  assumes "isHexDigit hi" "isHexDigit lo"
  shows "parseInt16 [hi, lo] = Num (of_int (hexByte hi lo))"
  using assms isHexDigit_plain [OF assms(1)] isHexDigit_plain [OF assms(2)]
  by (simp add: parseInt16_def hexByte_def)

lemma getContrastColor_seven:
  assumes "isHexDigit a" "isHexDigit b" "isHexDigit c"
    "isHexDigit d" "isHexDigit e" "isHexDigit f"
  shows "getContrastColor [h, a, b, c, d, e, f] =
           (if luminance (hexByte a b) (hexByte c d) (hexByte e f) \<le> 1/2
            then ''#FFFFFF'' else ''#000000'')"
  using assms
  by (simp add: getContrastColor_def substring_def parseInt16_two_digits literal_def
      luminance_def not_less)

lemma getContrastColor_four:
  "getContrastColor [h, a, b, c] = getContrastColor [CHR ''#'', a, a, b, b, c, c]"
  by (simp add: getContrastColor_def)

lemma hexDigitValue_digits:
  "map hexDigitValue ''0123456789abcdefABCDEF'' =
     [0, 1, 2, 3, 4, 5, 6, 7, 8, 9, 10, 11, 12, 13, 14, 15, 10, 11, 12, 13, 14, 15]"
  by (simp add: hexDigitValue_def)

lemma hexByte_range:
  assumes "isHexDigit hi" "isHexDigit lo"
  shows "0 \<le> hexByte hi lo \<and> hexByte hi lo \<le> 255"
  using assms by (auto simp: isHexDigit_def hexDigitValue_def hexByte_def Let_def)

lemma luminance_black: "luminance 0 0 0 = 0"
  by (simp add: luminance_def round_double_def)

lemma luminance_white: "luminance 255 255 255 = 1"
  by code_simp

lemma getContrastColor_black: "getContrastColor ''#000000'' = ''#FFFFFF''"
  using getContrastColor_seven [of "CHR ''0''" "CHR ''0''" "CHR ''0''" "CHR ''0''"
      "CHR ''0''" "CHR ''0''" "CHR ''#''"]
  by (simp add: isHexDigit_def hexByte_def hexDigitValue_def luminance_black)

lemma getContrastColor_white: "getContrastColor ''#FFFFFF'' = ''#000000''"
  using getContrastColor_seven [of "CHR ''F''" "CHR ''F''" "CHR ''F''" "CHR ''F''"
      "CHR ''F''" "CHR ''F''" "CHR ''#''"]
  by (simp add: isHexDigit_def hexByte_def hexDigitValue_def luminance_white)

text \<open>
  Double arithmetic is part of the behaviour. The colour \<^verbatim>\<open>#da3af8\<close> has
  \<open>299 * 218 + 587 * 58 + 114 * 248 = 127500\<close>, so in exact arithmetic its luminance is
  \<open>1/2\<close>; the three rounded products and two rounded sums give \<open>1/2 + 2\<^sup>-\<^sup>5\<^sup>3\<close>, and the
  function answers black.
\<close>

lemma luminance_da3af8: "luminance 218 58 248 = 1/2 + 1 / 2 ^ 53"
  by code_simp

lemma getContrastColor_da3af8: "getContrastColor ''#da3af8'' = ''#000000''"
  using getContrastColor_seven [of "CHR ''d''" "CHR ''a''" "CHR ''3''" "CHR ''a''"
      "CHR ''f''" "CHR ''8''" "CHR ''#''"]
  by (simp add: isHexDigit_def hexByte_def hexDigitValue_def luminance_da3af8)

lemma getContrastColor_short: "length s < 4 \<Longrightarrow> getContrastColor s = ''#000000''"
  by (simp add: getContrastColor_def)

lemma getContrastColor_exact_threshold:
  assumes "isHexDigit r1" "isHexDigit r2" "isHexDigit g1" "isHexDigit g2"
    "isHexDigit b1" "isHexDigit b2"
  defines "n \<equiv> 299 * hexByte r1 r2 + 587 * hexByte g1 g2 + 114 * hexByte b1 b2"
  shows "n < 127500 \<Longrightarrow> getContrastColor [h, r1, r2, g1, g2, b1, b2] = ''#FFFFFF''"
    and "127500 < n \<Longrightarrow> getContrastColor [h, r1, r2, g1, g2, b1, b2] = ''#000000''"
proof -
  have nn: "0 \<le> hexByte r1 r2" "0 \<le> hexByte g1 g2" "0 \<le> hexByte b1 b2"
    using assms(1-6) by (simp_all add: hexByte_range)
  show "n < 127500 \<Longrightarrow> getContrastColor [h, r1, r2, g1, g2, b1, b2] = ''#FFFFFF''"
    using luminance_below [OF nn] assms(1-6) by (simp add: getContrastColor_seven n_def)
  show "127500 < n \<Longrightarrow> getContrastColor [h, r1, r2, g1, g2, b1, b2] = ''#000000''"
    using luminance_above [OF nn] assms(1-6) by (simp add: getContrastColor_seven n_def)
qed

text \<open>
  Claim C3. For a valid \<^verbatim>\<open>#RRGGBB\<close> string the result is white when the luminance
  \<^verbatim>\<open>(0.299 * R + 0.587 * G + 0.114 * B) / 255\<close> of the three base-16 bytes, as the code
  computes it in double arithmetic, is at most \<open>0.5\<close> and black when it is above. In exact
  arithmetic this is: white when \<open>299 R + 587 G + 114 B < 127500\<close>, black when it is above
  \<open>127500\<close>, and at \<open>127500\<close> itself the rounded value decides. A valid \<^verbatim>\<open>#RGB\<close> string is
  first expanded by doubling each digit; \<^verbatim>\<open>#000000\<close> gives \<^verbatim>\<open>#FFFFFF\<close>, \<^verbatim>\<open>#FFFFFF\<close> gives
  \<^verbatim>\<open>#000000\<close>, and \<^verbatim>\<open>#fff\<close> gives what \<^verbatim>\<open>#ffffff\<close> gives.
\<close>

theorem getContrastColor_valid_hex:
  "isHexDigit r1 \<and> isHexDigit r2 \<and> isHexDigit g1 \<and> isHexDigit g2 \<and> isHexDigit b1 \<and> isHexDigit b2
   \<Longrightarrow>
   getContrastColor [CHR ''#'', r1, r2, g1, g2, b1, b2] =
     (if luminance (hexByte r1 r2) (hexByte g1 g2) (hexByte b1 b2) \<le> 1/2
      then ''#FFFFFF'' else ''#000000'') \<and>
   (299 * hexByte r1 r2 + 587 * hexByte g1 g2 + 114 * hexByte b1 b2 < 127500 \<longrightarrow>
      getContrastColor [CHR ''#'', r1, r2, g1, g2, b1, b2] = ''#FFFFFF'') \<and>
   (127500 < 299 * hexByte r1 r2 + 587 * hexByte g1 g2 + 114 * hexByte b1 b2 \<longrightarrow>
      getContrastColor [CHR ''#'', r1, r2, g1, g2, b1, b2] = ''#000000'') \<and>
   getContrastColor [CHR ''#'', r1, g1, b1] =
     getContrastColor [CHR ''#'', r1, r1, g1, g1, b1, b1] \<and>
   getContrastColor [CHR ''#'', r1, g1, b1] =
     (if luminance (hexByte r1 r1) (hexByte g1 g1) (hexByte b1 b1) \<le> 1/2
      then ''#FFFFFF'' else ''#000000'') \<and>
   getContrastColor ''#000000'' = ''#FFFFFF'' \<and>
   getContrastColor ''#FFFFFF'' = ''#000000'' \<and>
   getContrastColor ''#fff'' = getContrastColor ''#ffffff''"
proof -
  assume "isHexDigit r1 \<and> isHexDigit r2 \<and> isHexDigit g1 \<and> isHexDigit g2 \<and> isHexDigit b1 \<and> isHexDigit b2"
  then have d: "isHexDigit r1" "isHexDigit r2" "isHexDigit g1" "isHexDigit g2"
      "isHexDigit b1" "isHexDigit b2"
    by simp_all
  show ?thesis
  proof (intro conjI impI)
    show "getContrastColor [CHR ''#'', r1, r2, g1, g2, b1, b2] =
        (if luminance (hexByte r1 r2) (hexByte g1 g2) (hexByte b1 b2) \<le> 1/2
         then ''#FFFFFF'' else ''#000000'')"
      using d by (rule getContrastColor_seven)
    show "getContrastColor [CHR ''#'', r1, r2, g1, g2, b1, b2] = ''#FFFFFF''"
      if "299 * hexByte r1 r2 + 587 * hexByte g1 g2 + 114 * hexByte b1 b2 < 127500"
      using d that by (rule getContrastColor_exact_threshold(1))
    show "getContrastColor [CHR ''#'', r1, r2, g1, g2, b1, b2] = ''#000000''"
      if "127500 < 299 * hexByte r1 r2 + 587 * hexByte g1 g2 + 114 * hexByte b1 b2"
      using d that by (rule getContrastColor_exact_threshold(2))
    show "getContrastColor [CHR ''#'', r1, g1, b1] =
        getContrastColor [CHR ''#'', r1, r1, g1, g1, b1, b1]"
      by (rule getContrastColor_four)
    show "getContrastColor [CHR ''#'', r1, g1, b1] =
        (if luminance (hexByte r1 r1) (hexByte g1 g1) (hexByte b1 b1) \<le> 1/2
         then ''#FFFFFF'' else ''#000000'')"
      unfolding getContrastColor_four [of "CHR ''#''" r1 g1 b1]
      using d(1) d(1) d(3) d(3) d(5) d(5) by (rule getContrastColor_seven)
    show "getContrastColor ''#000000'' = ''#FFFFFF''" by (rule getContrastColor_black)
    show "getContrastColor ''#FFFFFF'' = ''#000000''" by (rule getContrastColor_white)
    show "getContrastColor ''#fff'' = getContrastColor ''#ffffff''"
      by (rule getContrastColor_four)
  qed
qed

theorem getContrastColor_valid_hex_witness:
  "getContrastColor ''#888888'' = ''#000000'' \<and>
   getContrastColor ''#777777'' = ''#FFFFFF'' \<and>
   getContrastColor ''#888'' = getContrastColor ''#888888''"
proof -
  have h8: "isHexDigit CHR ''8'' \<and> isHexDigit CHR ''8'' \<and> isHexDigit CHR ''8'' \<and>
      isHexDigit CHR ''8'' \<and> isHexDigit CHR ''8'' \<and> isHexDigit CHR ''8''"
    and h7: "isHexDigit CHR ''7'' \<and> isHexDigit CHR ''7'' \<and> isHexDigit CHR ''7'' \<and>
      isHexDigit CHR ''7'' \<and> isHexDigit CHR ''7'' \<and> isHexDigit CHR ''7''"
    by (simp_all add: isHexDigit_def)
  note t8 = getContrastColor_valid_hex [OF h8]
  note t7 = getContrastColor_valid_hex [OF h7]
  have "getContrastColor ''#888888'' = ''#000000''"
    using t8 [THEN conjunct2, THEN conjunct2, THEN conjunct1]
    by (simp add: hexByte_def hexDigitValue_def)
  moreover have "getContrastColor ''#777777'' = ''#FFFFFF''"
    using t7 [THEN conjunct2, THEN conjunct1]
    by (simp add: hexByte_def hexDigitValue_def)
  moreover have "getContrastColor ''#888'' = getContrastColor ''#888888''"
    using t8 [THEN conjunct2, THEN conjunct2, THEN conjunct2, THEN conjunct1] .
  ultimately show ?thesis by blast
qed

text \<open>
  Claim C4. A malformed colour is meant to fall back to black. Only strings shorter than
  four characters do; the seven-character string \<^verbatim>\<open>#GGGGGG\<close> has no hexadecimal digit, all
  three \<^verbatim>\<open>parseInt\<close> calls give \<^verbatim>\<open>NaN\<close>, the comparison \<^verbatim>\<open>NaN > 0.5\<close> is false, and the
  function answers white.
\<close>

theorem getContrastColor_malformed_white: "getContrastColor ''#GGGGGG'' = ''#FFFFFF''"
  by (simp add: getContrastColor_def substring_def parseInt16_def isHexDigit_def)

text \<open>
  Claim C10. \<^verbatim>\<open>getContrastColor\<close> has no failing operation (an index inside the string,
  \<^verbatim>\<open>substring\<close>, \<^verbatim>\<open>parseInt\<close> and arithmetic never throw) and no loop; on every string it
  returns one of the two colours.
\<close>

theorem getContrastColor_total:
  "getContrastColor s = ''#000000'' \<or> getContrastColor s = ''#FFFFFF''"
  by (simp add: getContrastColor_def Let_def)

section \<open>Properties of the pane lifecycle tracker\<close>

subsection \<open>Which panes are tracked\<close>

lemma set_newSet [simp]: "set (newSet xs) = set xs"
  by (simp add: newSet_def)

lemma distinct_newSet [simp]: "distinct (newSet xs)"
  by (simp add: newSet_def)

lemma update_div_fields [simp]:
  "leafButtonContainers (update_div n f s) = leafButtonContainers s"
  "settings (update_div n f s) = settings s"
  "styleEl (update_div n f s) = styleEl s"
  "styles (update_div n f s) = styles s"
  "length (divs (update_div n f s)) = length (divs s)"
  by (simp_all add: update_div_def)

lemma createFloatingButtons_fields [simp]:
  "leafButtonContainers (createFloatingButtons n lf s) = leafButtonContainers s"
  "settings (createFloatingButtons n lf s) = settings s"
  "styleEl (createFloatingButtons n lf s) = styleEl s"
  "styles (createFloatingButtons n lf s) = styles s"
  "length (divs (createFloatingButtons n lf s)) = length (divs s)"
  by (simp_all add: createFloatingButtons_def)

lemma updateSingleLeafVisibility_fields [simp]:
  "leafButtonContainers (updateSingleLeafVisibility w lf s) = leafButtonContainers s"
  "settings (updateSingleLeafVisibility w lf s) = settings s"
  "styleEl (updateSingleLeafVisibility w lf s) = styleEl s"
  "styles (updateSingleLeafVisibility w lf s) = styles s"
  "length (divs (updateSingleLeafVisibility w lf s)) = length (divs s)"
  by (simp_all add: updateSingleLeafVisibility_def Let_def split: option.split)

lemma update_absent: "k \<notin> fst ` set al \<Longrightarrow> AList.update k v al = al @ [(k, v)]"
  by (induction al) auto

lemma map_of_append_absent: "k \<notin> fst ` set al \<Longrightarrow> map_of (al @ [(k, v)]) k = Some v"
  by (induction al) auto

lemma addButtonsToLeaf_skip:
  "\<not> isMarkdownView w lf \<or> lf \<in> tracked s \<Longrightarrow> addButtonsToLeaf w lf s = s"
  by (simp add: addButtonsToLeaf_def tracked_def)

lemma addButtonsToLeaf_miss:
  assumes "isMarkdownView w lf" "lf \<notin> tracked s" "viewContent w lf = None"
  shows "addButtonsToLeaf w lf s =
           s\<lparr> divs := divs s @ [\<lparr> parent = None,
                                   classes = [''scroll-control-button-container''],
                                   children = [] \<rparr>] \<rparr>"
  using assms
  by (simp add: addButtonsToLeaf_def tracked_def createElement_div_def update_div_def
      addClass_def)

lemma addButtonsToLeaf_hit:
  assumes "isMarkdownView w lf" "lf \<notin> tracked s" "viewContent w lf = Some vc"
  shows "addButtonsToLeaf w lf s =
           s\<lparr> leafButtonContainers := leafButtonContainers s @ [(lf, length (divs s))],
              divs := divs s @
                [\<lparr> parent = Some vc,
                   classes = [''scroll-control-button-container'',
                              if activeLeaf w = Some lf then ''scroll-control-visible''
                              else ''scroll-control-hidden''],
                   children = map (createButton (settings s) lf)
                                (buttonDescriptors (settings s)) \<rparr>] \<rparr>"
  using assms
  by (simp add: addButtonsToLeaf_def tracked_def createElement_div_def update_div_def
      addClass_def removeClass_def toggleClass_def createFloatingButtons_def
      updateSingleLeafVisibility_def update_absent map_of_append_absent Let_def
      del: map_of_append)

lemma leafButtonContainers_addButtonsToLeaf:
  "leafButtonContainers (addButtonsToLeaf w lf s) =
     (if resolvable w lf \<and> lf \<notin> tracked s
      then leafButtonContainers s @ [(lf, length (divs s))]
      else leafButtonContainers s)"
proof (cases "isMarkdownView w lf \<and> lf \<notin> tracked s")
  case False
  then show ?thesis by (auto simp: addButtonsToLeaf_skip resolvable_def)
next
  case True
  then show ?thesis
    by (cases "viewContent w lf")
       (simp_all add: addButtonsToLeaf_miss addButtonsToLeaf_hit resolvable_def)
qed

lemma tracked_addButtonsToLeaf:
  "tracked (addButtonsToLeaf w lf s) = tracked s \<union> (if resolvable w lf then {lf} else {})"
proof -
  have "tracked (addButtonsToLeaf w lf s) =
          (if resolvable w lf \<and> lf \<notin> tracked s then insert lf (tracked s) else tracked s)"
    by (simp add: tracked_def leafButtonContainers_addButtonsToLeaf)
  then show ?thesis by auto
qed

lemma leafButtonContainers_removeButtonsFromLeaf:
  "leafButtonContainers (removeButtonsFromLeaf lf s) = AList.delete lf (leafButtonContainers s)"
  by (simp add: removeButtonsFromLeaf_def map_of_eq_None_iff split: option.splits)

lemma tracked_removeButtonsFromLeaf:
  "tracked (removeButtonsFromLeaf lf s) = tracked s - {lf}"
  unfolding tracked_def leafButtonContainers_removeButtonsFromLeaf
  by (simp add: AList.delete_keys flip: set_map)

lemma tracked_fold_add:
  "tracked (fold (\<lambda>lf s. if lf \<notin> A then addButtonsToLeaf w lf s else s) xs s) =
     tracked s \<union> {lf \<in> set xs. lf \<notin> A \<and> resolvable w lf}"
  by (induction xs arbitrary: s) (auto simp: tracked_addButtonsToLeaf)

lemma tracked_fold_remove:
  "tracked (fold (\<lambda>lf s. if lf \<notin> C then removeButtonsFromLeaf lf s else s) ys s) =
     tracked s - {lf \<in> set ys. lf \<notin> C}"
  by (induction ys arbitrary: s) (auto simp: tracked_removeButtonsFromLeaf)

lemma tracked_handleLayoutChange:
  "tracked (handleLayoutChange w s) =
     (tracked s \<inter> set (getLeavesOfType_markdown w)) \<union>
     {lf \<in> set (getLeavesOfType_markdown w). lf \<notin> tracked s \<and> resolvable w lf}"
proof -
  have known: "set (map fst (leafButtonContainers s)) = tracked s"
    by (simp add: tracked_def)
  show ?thesis
    unfolding handleLayoutChange_def Let_def tracked_fold_remove tracked_fold_add
      set_newSet known
    by blast
qed

lemma tracked_updateAllButtons_aux:
  "tracked (fold (\<lambda>lf s. addButtonsToLeaf w lf (removeButtonsFromLeaf lf s)) xs s) =
     (tracked s - set xs) \<union> {lf \<in> set xs. resolvable w lf}"
  by (induction xs arbitrary: s)
     (auto simp: tracked_addButtonsToLeaf tracked_removeButtonsFromLeaf)

subsection \<open>A second reconciliation\<close>

lemma fold_add_again:
  assumes "tracked s = K" "\<forall>lf \<in> set xs. lf \<notin> K \<longrightarrow> \<not> resolvable w lf"
  shows "\<exists>g. fold (\<lambda>lf s. if lf \<notin> K then addButtonsToLeaf w lf s else s) xs s =
               s\<lparr> divs := divs s @ g \<rparr> \<and> (\<forall>d \<in> set g. parent d = None)"
  using assms
proof (induction xs arbitrary: s)
  case Nil
  have "s = s\<lparr> divs := divs s @ [] \<rparr>" by simp
  then show ?case by (metis fold_simps(1) empty_iff list.set(1))
next
  case (Cons lf xs)
  let ?step = "if lf \<notin> K then addButtonsToLeaf w lf s else s"
  have "\<exists>g0. ?step = s\<lparr> divs := divs s @ g0 \<rparr> \<and> (\<forall>d \<in> set g0. parent d = None)"
  proof (cases "lf \<notin> K \<and> isMarkdownView w lf")
    case False
    then have "?step = s\<lparr> divs := divs s @ [] \<rparr>"
      by (auto simp: addButtonsToLeaf_skip)
    then show ?thesis by (metis empty_iff list.set(1))
  next
    case True
    with Cons.prems have "viewContent w lf = None" "lf \<notin> tracked s"
      by (auto simp: resolvable_def)
    with True have "?step = s\<lparr> divs := divs s @ [\<lparr> parent = None,
        classes = [''scroll-control-button-container''], children = [] \<rparr>] \<rparr>"
      by (simp add: addButtonsToLeaf_miss)
    then show ?thesis by fastforce
  qed
  then obtain g0 where g0: "?step = s\<lparr> divs := divs s @ g0 \<rparr>" "\<forall>d \<in> set g0. parent d = None"
    by blast
  have "tracked ?step = K" using g0(1) Cons.prems(1) by (simp add: tracked_def)
  from Cons.IH [OF this] Cons.prems(2)
  obtain g where g: "fold (\<lambda>lf s. if lf \<notin> K then addButtonsToLeaf w lf s else s) xs ?step =
      ?step\<lparr> divs := divs ?step @ g \<rparr>" "\<forall>d \<in> set g. parent d = None"
    by auto
  have "fold (\<lambda>lf s. if lf \<notin> K then addButtonsToLeaf w lf s else s) (lf # xs) s =
          s\<lparr> divs := divs s @ (g0 @ g) \<rparr>"
    using g(1) g0(1) by simp
  moreover have "\<forall>d \<in> set (g0 @ g). parent d = None" using g0(2) g(2) by auto
  ultimately show ?case by blast
qed

lemma fold_remove_none:
  "\<forall>lf \<in> set ys. lf \<in> C \<Longrightarrow>
   fold (\<lambda>lf s. if lf \<notin> C then removeButtonsFromLeaf lf s else s) ys s = s"
  by (induction ys arbitrary: s) auto

lemma handleLayoutChange_settled:
  assumes "tracked s \<subseteq> set (getLeavesOfType_markdown w)"
    and "\<forall>lf \<in> set (getLeavesOfType_markdown w). lf \<notin> tracked s \<longrightarrow> \<not> resolvable w lf"
  shows "\<exists>g. handleLayoutChange w s = s\<lparr> divs := divs s @ g \<rparr> \<and> (\<forall>d \<in> set g. parent d = None)"
proof -
  have known: "set (newSet (map fst (leafButtonContainers s))) = tracked s"
    by (simp add: tracked_def)
  have "\<forall>lf \<in> set (newSet (getLeavesOfType_markdown w)). lf \<notin> tracked s \<longrightarrow> \<not> resolvable w lf"
    using assms(2) by simp
  from fold_add_again [OF refl this]
  obtain g where g: "fold (\<lambda>lf t. if lf \<notin> tracked s then addButtonsToLeaf w lf t else t)
        (newSet (getLeavesOfType_markdown w)) s = s\<lparr> divs := divs s @ g \<rparr>"
      "\<forall>d \<in> set g. parent d = None"
    by blast
  have "\<forall>lf \<in> set (newSet (map fst (leafButtonContainers s))).
          lf \<in> set (newSet (getLeavesOfType_markdown w))"
    using assms(1) known by auto
  from fold_remove_none [OF this]
  have "handleLayoutChange w s = s\<lparr> divs := divs s @ g \<rparr>"
    unfolding handleLayoutChange_def Let_def known using g(1) by simp
  with g(2) show ?thesis by blast
qed

lemma handleLayoutChange_idem:
  "let s1 = handleLayoutChange w s; s2 = handleLayoutChange w s1
   in leafButtonContainers s2 = leafButtonContainers s1 \<and>
      take (length (divs s1)) (divs s2) = divs s1 \<and>
      (\<forall>d \<in> set (drop (length (divs s1)) (divs s2)). parent d = None) \<and>
      styles s2 = styles s1 \<and> styleEl s2 = styleEl s1 \<and> settings s2 = settings s1"
proof -
  let ?s1 = "handleLayoutChange w s"
  have "tracked ?s1 \<subseteq> set (getLeavesOfType_markdown w)"
    and "\<forall>lf \<in> set (getLeavesOfType_markdown w). lf \<notin> tracked ?s1 \<longrightarrow> \<not> resolvable w lf"
    by (auto simp: tracked_handleLayoutChange)
  from handleLayoutChange_settled [OF this]
  obtain g where "handleLayoutChange w ?s1 = ?s1\<lparr> divs := divs ?s1 @ g \<rparr>"
    "\<forall>d \<in> set g. parent d = None"
    by blast
  then show ?thesis by (simp add: Let_def)
qed

subsection \<open>The invariant is preserved\<close>

lemma tracker_inv_initial: "tracker_inv initial"
  by (simp add: tracker_inv_def initial_def)

lemma tracker_inv_addButtonsToLeaf:
  assumes "tracker_inv s"
  shows "tracker_inv (addButtonsToLeaf w lf s)"
proof (cases "isMarkdownView w lf \<and> lf \<notin> tracked s")
  case False
  then show ?thesis using assms by (auto simp: addButtonsToLeaf_skip)
next
  case True
  show ?thesis
  proof (cases "viewContent w lf")
    case None
    with True assms show ?thesis
      by (auto simp: addButtonsToLeaf_miss tracker_inv_def nth_append less_Suc_eq)
  next
    case (Some vc)
    have fresh: "length (divs s) \<notin> snd ` set (leafButtonContainers s)"
      using assms by (auto simp: tracker_inv_def)
    from True Some assms fresh show ?thesis
      by (auto simp: addButtonsToLeaf_hit tracker_inv_def nth_append less_Suc_eq tracked_def)
  qed
qed

lemma tracker_inv_removeButtonsFromLeaf:
  assumes "tracker_inv s"
  shows "tracker_inv (removeButtonsFromLeaf lf s)"
proof (cases "map_of (leafButtonContainers s) lf")
  case None
  then show ?thesis using assms by (simp add: removeButtonsFromLeaf_def)
next
  case (Some c)
  let ?al = "leafButtonContainers s"
  have mem: "(lf, c) \<in> set ?al" using Some by (rule map_of_SomeD)
  have dk: "distinct (map fst ?al)" and dv: "distinct (map snd ?al)"
    using assms by (simp_all add: tracker_inv_def)
  have other: "c' \<noteq> c" if "(l', c') \<in> set ?al" "l' \<noteq> lf" for l' c'
    using that mem dv by (metis distinct_map inj_on_def snd_conv prod.inject)
  have same: "l' = lf" if "(l', c) \<in> set ?al" for l'
    using that other by blast
  have eq: "removeButtonsFromLeaf lf s =
      s\<lparr> divs := (divs s)[c := (divs s ! c)\<lparr> parent := None \<rparr>],
         leafButtonContainers := AList.delete lf ?al \<rparr>"
    using Some by (simp add: removeButtonsFromLeaf_def update_div_def)
  have set_del: "set (AList.delete lf ?al) = {p \<in> set ?al. fst p \<noteq> lf}"
    by (auto simp: AList.delete_eq)
  let ?ds = "(divs s)[c := (divs s ! c)\<lparr> parent := None \<rparr>]"
  have key: "c' = c" if "(lf, c') \<in> set ?al" for c'
    using that mem dk by (metis distinct_map inj_on_def fst_conv prod.inject)
  have 1: "distinct (map fst (AList.delete lf ?al))"
    using dk by (simp add: AList.distinct_delete)
  have 2: "distinct (map snd (AList.delete lf ?al))"
    using dv by (simp add: AList.delete_eq distinct_map_filter)
  have 3: "c' < length ?ds \<and> parent (?ds ! c') \<noteq> None"
    if "c' \<in> snd ` set (AList.delete lf ?al)" for c'
  proof -
    from that obtain l' where l': "(l', c') \<in> set ?al" "l' \<noteq> lf"
      by (auto simp: set_del)
    then have "c' \<noteq> c" by (rule other)
    moreover have "c' < length (divs s) \<and> parent (divs s ! c') \<noteq> None"
      using assms l'(1) by (force simp: tracker_inv_def)
    ultimately show ?thesis by simp
  qed
  have 4: "i \<in> snd ` set (AList.delete lf ?al)"
    if "i < length ?ds" "parent (?ds ! i) \<noteq> None" for i
  proof -
    have ne: "i \<noteq> c" using that by (auto simp: nth_list_update)
    with that have "i < length (divs s)" "parent (divs s ! i) \<noteq> None" by simp_all
    with assms have "i \<in> snd ` set ?al" by (simp add: tracker_inv_def)
    then obtain l' where l': "(l', i) \<in> set ?al" by auto
    with key ne have "l' \<noteq> lf" by blast
    with l' show ?thesis by (force simp: set_del)
  qed
  have 5: "\<forall>i < length (styles s). in_head (styles s ! i) \<longrightarrow> styleEl s = Some i"
    using assms by (simp add: tracker_inv_def)
  show ?thesis
    unfolding eq tracker_inv_def using 1 2 3 4 5 by simp
qed

lemma fold_preserves:
  assumes "\<And>x s. P s \<Longrightarrow> P (f x s)" "P s"
  shows "P (fold f xs s)"
  using assms(2) by (induction xs arbitrary: s) (simp_all add: assms(1))

lemma tracker_inv_initializeAllButtons:
  "tracker_inv s \<Longrightarrow> tracker_inv (initializeAllButtons w s)"
  unfolding initializeAllButtons_def
  by (rule fold_preserves) (rule tracker_inv_addButtonsToLeaf)

lemma tracker_inv_updateAllButtons:
  "tracker_inv s \<Longrightarrow> tracker_inv (updateAllButtons w s)"
  unfolding updateAllButtons_def
  by (rule fold_preserves)
     (simp add: tracker_inv_addButtonsToLeaf tracker_inv_removeButtonsFromLeaf)

lemma tracker_inv_handleLayoutChange:
  "tracker_inv s \<Longrightarrow> tracker_inv (handleLayoutChange w s)"
proof -
  assume inv: "tracker_inv s"
  have 1: "tracker_inv (fold (\<lambda>lf t. if lf \<notin> K then addButtonsToLeaf w lf t else t) xs s)"
    for K xs
    by (rule fold_preserves [where P = tracker_inv])
       (simp_all add: tracker_inv_addButtonsToLeaf inv)
  show ?thesis
    unfolding handleLayoutChange_def Let_def
    by (rule fold_preserves [where P = tracker_inv])
       (simp_all add: tracker_inv_removeButtonsFromLeaf 1)
qed

text \<open>The two class toggles of the visibility updates.\<close>

lemma set_toggleClass:
  "set (toggleClass cls v cs) = (if v then insert cls (set cs) else set cs - {cls})"
  by (auto simp: toggleClass_def addClass_def removeClass_def)

lemma visibility_toggles:
  "is_visible (c\<lparr> classes := toggleClass ''scroll-control-hidden'' (\<not> v)
                               (toggleClass ''scroll-control-visible'' v (classes c)) \<rparr>) = v"
  "is_hidden (c\<lparr> classes := toggleClass ''scroll-control-hidden'' (\<not> v)
                              (toggleClass ''scroll-control-visible'' v (classes c)) \<rparr>) = (\<not> v)"
  by (auto simp: is_visible_def is_hidden_def set_toggleClass)

lemma update_entries_simps [simp]:
  "update_entries P F [] s = s"
  "update_entries P F ((lf, c) # es) s =
     update_entries P F es (if P lf then update_div c (F lf) s else s)"
  by (simp_all add: update_entries_def)

lemma update_entries_fields [simp]:
  "leafButtonContainers (update_entries P F es s) = leafButtonContainers s"
  "settings (update_entries P F es s) = settings s"
  "styleEl (update_entries P F es s) = styleEl s"
  "styles (update_entries P F es s) = styles s"
  "length (divs (update_entries P F es s)) = length (divs s)"
  by (induction es arbitrary: s; force)+

lemma update_entries_other:
  "i \<notin> snd ` set es \<Longrightarrow> divs (update_entries P F es s) ! i = divs s ! i"
  by (induction es arbitrary: s) (auto simp: update_div_def)

lemma update_entries_at:
  assumes "distinct (map snd es)" "(lf, c) \<in> set es" "c < length (divs s)"
  shows "divs (update_entries P F es s) ! c = (if P lf then F lf (divs s ! c) else divs s ! c)"
  using assms
proof (induction es arbitrary: s)
  case Nil
  then show ?case by simp
next
  case (Cons e es)
  obtain l' c' where e: "e = (l', c')" by (cases e)
  let ?s1 = "if P l' then update_div c' (F l') s else s"
  have fresh: "c' \<notin> snd ` set es" and d: "distinct (map snd es)"
    using Cons.prems(1) e by auto
  show ?case
  proof (cases "(lf, c) = (l', c')")
    case True
    then have "divs (update_entries P F (e # es) s) ! c = divs ?s1 ! c"
      using fresh e by (simp add: update_entries_other)
    also have "\<dots> = (if P lf then F lf (divs s ! c) else divs s ! c)"
      using True Cons.prems(3) by (simp add: update_div_def)
    finally show ?thesis .
  next
    case False
    with Cons.prems(2) e have mem: "(lf, c) \<in> set es" by auto
    then have "c \<noteq> c'" using fresh by force
    then have at: "divs ?s1 ! c = divs s ! c" by (simp add: update_div_def)
    have "c < length (divs ?s1)" using Cons.prems(3) by simp
    from Cons.IH [OF d mem this] at show ?thesis by (simp add: e)
  qed
qed

lemma handleActiveLeafChange_entries:
  "handleActiveLeafChange w active s =
     update_entries (isMarkdownView w) (\<lambda>lf. set_visibility (Some lf = active))
       (leafButtonContainers s) s"
  by (simp add: handleActiveLeafChange_def update_entries_def set_visibility_def Let_def
      cong: if_cong)

lemma update_entries_parent:
  assumes "\<And>lf c. parent (F lf c) = parent c"
  shows "parent (divs (update_entries P F es s) ! i) = parent (divs s ! i)"
proof (induction es arbitrary: s)
  case Nil
  show ?case by simp
next
  case (Cons e es)
  obtain l' c' where e: "e = (l', c')" by (cases e)
  show ?case
    unfolding e update_entries_simps Cons.IH
  proof (cases "i = c'")
    case False
    then show "parent (divs (if P l' then update_div c' (F l') s else s) ! i) = parent (divs s ! i)"
      by (simp add: update_div_def)
  next
    case True
    then show "parent (divs (if P l' then update_div c' (F l') s else s) ! i) = parent (divs s ! i)"
      by (cases "i < length (divs s)") (simp_all add: update_div_def assms list_update_beyond)
  qed
qed

lemma tracker_inv_handleActiveLeafChange:
  assumes "tracker_inv s"
  shows "tracker_inv (handleActiveLeafChange w active s)"
proof -
  have "parent (divs (handleActiveLeafChange w active s) ! i) = parent (divs s ! i)" for i
    unfolding handleActiveLeafChange_entries
    by (rule update_entries_parent) (simp add: set_visibility_def)
  with assms show ?thesis
    by (simp add: tracker_inv_def handleActiveLeafChange_entries)
qed

subsection \<open>The claims about tracking\<close>

lemma two_panes_tracked_eq:
  "leafButtonContainers two_panes_tracked = [(1, 0), (2, 1)]"
  "styleEl two_panes_tracked = Some 0"
  "map parent (divs two_panes_tracked) = [Some 11, Some 12]"
  "map classes (divs two_panes_tracked) =
     [[''scroll-control-button-container'', ''scroll-control-visible''],
      [''scroll-control-button-container'', ''scroll-control-hidden'']]"
  "map in_head (styles two_panes_tracked) = [True]"
  by (simp_all add: two_panes_tracked_def two_panes_def initializeAllButtons_def
      addButtonsToLeaf_hit tracked_def addStyle_def initial_def createElement_style_def
      update_style_def updateStyle_def)

lemma classes_two_panes_tracked:
  "classes (divs two_panes_tracked ! 0) =
     [''scroll-control-button-container'', ''scroll-control-visible'']"
  "classes (divs two_panes_tracked ! Suc 0) =
     [''scroll-control-button-container'', ''scroll-control-hidden'']"
  "length (divs two_panes_tracked) = 2"
  "length (styles two_panes_tracked) = 1"
  by (simp_all add: two_panes_tracked_def two_panes_def initializeAllButtons_def
      addButtonsToLeaf_hit tracked_def addStyle_def initial_def createElement_style_def
      update_style_def updateStyle_def)

lemma tracker_inv_two_panes_tracked: "tracker_inv two_panes_tracked"
  unfolding two_panes_tracked_def
proof (rule tracker_inv_initializeAllButtons)
  show "tracker_inv (addStyle initial)"
    by (simp add: tracker_inv_def addStyle_def initial_def createElement_style_def
        update_style_def updateStyle_def)
qed

lemma tracked_two_panes_tracked: "tracked two_panes_tracked = {1, 2}"
  by (simp add: tracked_def two_panes_tracked_eq)

lemma three_panes_first_run:
  "leafButtonContainers (handleLayoutChange three_panes_one_unresolved two_panes_tracked) =
     [(2, 1), (4, 3)]"
  "map parent (divs (handleLayoutChange three_panes_one_unresolved two_panes_tracked)) =
     [None, Some 12, None, Some 14]"
  using two_panes_tracked_eq(3)
  by (simp_all add: handleLayoutChange_def three_panes_one_unresolved_def two_panes_tracked_eq
      newSet_def addButtonsToLeaf_skip addButtonsToLeaf_miss addButtonsToLeaf_hit tracked_def
      classes_two_panes_tracked removeButtonsFromLeaf_def update_div_def map_update)

lemma tracked_initial: "tracked initial = {}"
  by (simp add: tracked_def initial_def)

lemma handleLayoutChange_establishes:
  assumes "\<forall>lf \<in> tracked s \<inter> set (getLeavesOfType_markdown w). resolvable w lf"
  shows "\<forall>lf \<in> tracked (handleLayoutChange w s). resolvable w lf"
  using assms unfolding tracked_handleLayoutChange by blast

text \<open>
  Claim C1, as amended. Reconciliation looks up the attachment point of the panes it has
  not seen before and never re-examines a pane it already tracks. After any run, from any
  state, the tracked panes are the panes tracked before that are still open, together with
  the open panes not tracked before that hold a Markdown view whose \<^verbatim>\<open>.view-content\<close>
  element is found; a pane whose element is not found is skipped and not added. The tracked
  set is therefore exactly the set of open panes with a Markdown view and a found element
  whenever the panes tracked before that are still open are such panes, as from an empty
  table.
\<close>

theorem handleLayoutChange_tracked:
  "tracked (handleLayoutChange w s) =
     (tracked s \<inter> set (getLeavesOfType_markdown w)) \<union>
     {lf \<in> set (getLeavesOfType_markdown w).
        lf \<notin> tracked s \<and> isMarkdownView w lf \<and> viewContent w lf \<noteq> None} \<and>
   (\<forall>lf. lf \<notin> tracked s \<and> viewContent w lf = None \<longrightarrow>
         lf \<notin> tracked (handleLayoutChange w s)) \<and>
   ((\<forall>lf \<in> tracked s \<inter> set (getLeavesOfType_markdown w).
        isMarkdownView w lf \<and> viewContent w lf \<noteq> None) \<longrightarrow>
    tracked (handleLayoutChange w s) =
      {lf \<in> set (getLeavesOfType_markdown w). isMarkdownView w lf \<and> viewContent w lf \<noteq> None})"
  unfolding tracked_handleLayoutChange resolvable_def by auto

theorem handleLayoutChange_tracked_witness:
  "tracked two_panes_tracked = {1, 2} \<and>
   tracked (handleLayoutChange three_panes_one_unresolved two_panes_tracked) = {2, 4} \<and>
   3 \<notin> tracked (handleLayoutChange three_panes_one_unresolved two_panes_tracked)"
proof -
  have hyp: "\<forall>lf \<in> tracked two_panes_tracked \<inter> set (getLeavesOfType_markdown three_panes_one_unresolved).
      isMarkdownView three_panes_one_unresolved lf \<and>
      viewContent three_panes_one_unresolved lf \<noteq> None"
    by (simp add: tracked_two_panes_tracked three_panes_one_unresolved_def)
  have "{lf \<in> set (getLeavesOfType_markdown three_panes_one_unresolved).
          isMarkdownView three_panes_one_unresolved lf \<and>
          viewContent three_panes_one_unresolved lf \<noteq> None} = {2, 4}"
    by (auto simp: three_panes_one_unresolved_def)
  moreover have "tracked (handleLayoutChange three_panes_one_unresolved two_panes_tracked) =
      {lf \<in> set (getLeavesOfType_markdown three_panes_one_unresolved).
          isMarkdownView three_panes_one_unresolved lf \<and>
          viewContent three_panes_one_unresolved lf \<noteq> None}"
    using handleLayoutChange_tracked [of three_panes_one_unresolved two_panes_tracked] hyp
    by blast
  ultimately show ?thesis
    by (simp add: tracked_two_panes_tracked)
qed

text \<open>
  Claim C1 as stated fails when a pane that is already tracked and still open is not a pane
  with a Markdown view and a found element in the current workspace: pane 1 stays tracked,
  although the only open pane that could receive an overlay now is pane 2.
\<close>

theorem handleLayoutChange_keeps_known_pane:
  "tracked (handleLayoutChange two_panes_first_unloaded two_panes_tracked) = {1, 2} \<and>
   {lf \<in> set (getLeavesOfType_markdown two_panes_first_unloaded).
      isMarkdownView two_panes_first_unloaded lf \<and>
      viewContent two_panes_first_unloaded lf \<noteq> None} = {2}"
proof -
  have "tracked (handleLayoutChange two_panes_first_unloaded two_panes_tracked) = {1, 2}"
    unfolding tracked_handleLayoutChange
    by (auto simp: tracked_two_panes_tracked two_panes_first_unloaded_def resolvable_def)
  moreover have "{lf \<in> set (getLeavesOfType_markdown two_panes_first_unloaded).
      isMarkdownView two_panes_first_unloaded lf \<and>
      viewContent two_panes_first_unloaded lf \<noteq> None} = {2}"
    by (auto simp: two_panes_first_unloaded_def)
  ultimately show ?thesis by blast
qed

text \<open>
  Claim C2. Reconciliation is idempotent: for every plugin state and every workspace, a
  second reconciliation in the same workspace leaves the association table as the first one
  left it, changes no node that existed after the first one, and attaches nothing (a pane
  whose \<^verbatim>\<open>.view-content\<close> is still missing gets a new detached \<^verbatim>\<open>div\<close> that is dropped); the
  style node is untouched.
\<close>

theorem handleLayoutChange_idempotent:
  "leafButtonContainers (handleLayoutChange w (handleLayoutChange w s)) =
     leafButtonContainers (handleLayoutChange w s) \<and>
   take (length (divs (handleLayoutChange w s))) (divs (handleLayoutChange w (handleLayoutChange w s))) =
     divs (handleLayoutChange w s) \<and>
   (\<forall>d \<in> set (drop (length (divs (handleLayoutChange w s)))
                 (divs (handleLayoutChange w (handleLayoutChange w s)))). parent d = None) \<and>
   styles (handleLayoutChange w (handleLayoutChange w s)) = styles (handleLayoutChange w s) \<and>
   styleEl (handleLayoutChange w (handleLayoutChange w s)) = styleEl (handleLayoutChange w s)"
  using handleLayoutChange_idem [of w s] by (simp add: Let_def)

theorem handleLayoutChange_idempotent_witness:
  "leafButtonContainers (handleLayoutChange three_panes_one_unresolved two_panes_tracked) =
     [(2, 1), (4, 3)] \<and>
   map parent (divs (handleLayoutChange three_panes_one_unresolved two_panes_tracked)) =
     [None, Some 12, None, Some 14] \<and>
   leafButtonContainers
     (handleLayoutChange three_panes_one_unresolved
        (handleLayoutChange three_panes_one_unresolved two_panes_tracked)) = [(2, 1), (4, 3)] \<and>
   map parent
     (take 4 (divs (handleLayoutChange three_panes_one_unresolved
                      (handleLayoutChange three_panes_one_unresolved two_panes_tracked)))) =
     [None, Some 12, None, Some 14]"
proof -
  have len: "length (divs (handleLayoutChange three_panes_one_unresolved two_panes_tracked)) = 4"
    using three_panes_first_run(2) [THEN arg_cong [where f = length]] by simp
  from handleLayoutChange_idempotent [of three_panes_one_unresolved two_panes_tracked]
  show ?thesis
    by (simp add: three_panes_first_run len)
qed

text \<open>
  Claim C6, as amended. \<^verbatim>\<open>updateAllButtons\<close> walks the open Markdown panes, not the tracked
  ones: afterwards the keys are the keys before that are not open panes, together with the
  open panes that hold a Markdown view with a \<^verbatim>\<open>.view-content\<close> element. The key set is
  unchanged when it was already the set of those open panes.
\<close>

theorem updateAllButtons_tracked:
  "tracked (updateAllButtons w s) =
     (tracked s - set (getLeavesOfType_markdown w)) \<union>
     {lf \<in> set (getLeavesOfType_markdown w). isMarkdownView w lf \<and> viewContent w lf \<noteq> None} \<and>
   (tracked s =
      {lf \<in> set (getLeavesOfType_markdown w). isMarkdownView w lf \<and> viewContent w lf \<noteq> None}
    \<longrightarrow> tracked (updateAllButtons w s) = tracked s)"
  unfolding updateAllButtons_def tracked_updateAllButtons_aux resolvable_def by auto

theorem updateAllButtons_tracked_witness:
  "tracked two_panes_tracked =
     {lf \<in> set (getLeavesOfType_markdown two_panes).
        isMarkdownView two_panes lf \<and> viewContent two_panes lf \<noteq> None} \<and>
   tracked (updateAllButtons two_panes two_panes_tracked) = {1, 2}"
proof -
  have hyp: "tracked two_panes_tracked =
     {lf \<in> set (getLeavesOfType_markdown two_panes).
        isMarkdownView two_panes lf \<and> viewContent two_panes lf \<noteq> None}"
    by (auto simp: tracked_two_panes_tracked two_panes_def)
  from updateAllButtons_tracked [of two_panes two_panes_tracked]
  have "tracked (updateAllButtons two_panes two_panes_tracked) = tracked two_panes_tracked"
    using hyp by blast
  with hyp show ?thesis by (simp add: tracked_two_panes_tracked)
qed

text \<open>
  Claim C6 as stated fails: in the initial state, with two open panes and nothing tracked
  yet, \<^verbatim>\<open>updateAllButtons\<close> starts tracking both.
\<close>

theorem updateAllButtons_adds_untracked: "tracked (updateAllButtons two_panes initial) \<noteq> tracked initial"
proof -
  have "tracked (updateAllButtons two_panes initial) = {1, 2}"
    unfolding updateAllButtons_def tracked_updateAllButtons_aux
    by (auto simp: two_panes_def resolvable_def tracked_def initial_def)
  then show ?thesis by (simp add: tracked_def initial_def)
qed

subsection \<open>Focus changes\<close>

text \<open>
  Claim C5, as amended. After the focus-change handler runs for pane \<open>active\<close> (or none),
  every tracked overlay whose pane holds a Markdown view is marked visible if its pane is
  \<open>active\<close> and hidden otherwise; the overlay of a tracked pane whose view is not a Markdown
  view is left as it was; no entry leaves the table and no overlay is detached. This holds
  for every size of the table, zero included.
\<close>

theorem handleActiveLeafChange_focus:
  assumes "tracker_inv s"
  shows
   "leafButtonContainers (handleActiveLeafChange w active s) = leafButtonContainers s \<and>
    length (divs (handleActiveLeafChange w active s)) = length (divs s) \<and>
    (\<forall>i. parent (divs (handleActiveLeafChange w active s) ! i) = parent (divs s ! i)) \<and>
    (\<forall>(lf, c) \<in> set (leafButtonContainers s).
       if isMarkdownView w lf
       then (is_visible (divs (handleActiveLeafChange w active s) ! c) \<longleftrightarrow> active = Some lf) \<and>
            (is_hidden (divs (handleActiveLeafChange w active s) ! c) \<longleftrightarrow> active \<noteq> Some lf)
       else divs (handleActiveLeafChange w active s) ! c = divs s ! c)"
proof (intro conjI allI)
  let ?s' = "handleActiveLeafChange w active s"
  show "leafButtonContainers ?s' = leafButtonContainers s"
    and "length (divs ?s') = length (divs s)"
    by (simp_all add: handleActiveLeafChange_entries)
  show "parent (divs ?s' ! i) = parent (divs s ! i)" for i
    unfolding handleActiveLeafChange_entries
    by (rule update_entries_parent) (simp add: set_visibility_def)
  have dv: "distinct (map snd (leafButtonContainers s))"
    and rng: "\<And>lf c. (lf, c) \<in> set (leafButtonContainers s) \<Longrightarrow> c < length (divs s)"
    using assms by (force simp: tracker_inv_def)+
  show "\<forall>(lf, c) \<in> set (leafButtonContainers s).
       if isMarkdownView w lf
       then (is_visible (divs ?s' ! c) \<longleftrightarrow> active = Some lf) \<and>
            (is_hidden (divs ?s' ! c) \<longleftrightarrow> active \<noteq> Some lf)
       else divs ?s' ! c = divs s ! c"
  proof (clarify)
    fix lf c
    assume mem: "(lf, c) \<in> set (leafButtonContainers s)"
    have at: "divs ?s' ! c =
        (if isMarkdownView w lf then set_visibility (Some lf = active) (divs s ! c)
         else divs s ! c)"
      unfolding handleActiveLeafChange_entries
      by (rule update_entries_at [OF dv mem rng [OF mem]])
    show "if isMarkdownView w lf
       then (is_visible (divs ?s' ! c) \<longleftrightarrow> active = Some lf) \<and>
            (is_hidden (divs ?s' ! c) \<longleftrightarrow> active \<noteq> Some lf)
       else divs ?s' ! c = divs s ! c"
      unfolding at by (auto simp: set_visibility_def visibility_toggles)
  qed
qed

theorem handleActiveLeafChange_focus_witness:
  "tracker_inv two_panes_tracked \<and>
   leafButtonContainers (handleActiveLeafChange two_panes (Some 2) two_panes_tracked) =
     [(1, 0), (2, 1)] \<and>
   is_hidden (divs (handleActiveLeafChange two_panes (Some 2) two_panes_tracked) ! 0) \<and>
   is_visible (divs (handleActiveLeafChange two_panes (Some 2) two_panes_tracked) ! 1)"
  using handleActiveLeafChange_focus [OF tracker_inv_two_panes_tracked, of two_panes "Some 2"]
  by (simp add: tracker_inv_two_panes_tracked two_panes_tracked_eq two_panes_def)

text \<open>
  Claim C5 as stated fails when a tracked pane no longer holds a Markdown view: the handler
  skips it, so after the focus has moved to pane 2 the overlay of pane 1 is still marked
  visible, next to the overlay of pane 2.
\<close>

theorem handleActiveLeafChange_skips_replaced_view:
  "tracker_inv two_panes_tracked \<and>
   leafButtonContainers
     (handleActiveLeafChange two_panes_first_replaced (Some 2) two_panes_tracked) =
     [(1, 0), (2, 1)] \<and>
   is_visible (divs (handleActiveLeafChange two_panes_first_replaced (Some 2) two_panes_tracked) ! 0) \<and>
   \<not> is_hidden (divs (handleActiveLeafChange two_panes_first_replaced (Some 2) two_panes_tracked) ! 0) \<and>
   is_visible (divs (handleActiveLeafChange two_panes_first_replaced (Some 2) two_panes_tracked) ! 1)"
  by (simp add: tracker_inv_two_panes_tracked handleActiveLeafChange_entries two_panes_tracked_eq
      two_panes_first_replaced_def two_panes_def update_div_def classes_two_panes_tracked
      set_visibility_def is_visible_def is_hidden_def set_toggleClass)

subsection \<open>Deactivation\<close>

lemma onunload_entries:
  "onunload s =
     (let s1 = update_entries (\<lambda>_. True) (\<lambda>_ c. c\<lparr> parent := None \<rparr>) (leafButtonContainers s) s;
          s2 = s1\<lparr> leafButtonContainers := [] \<rparr>;
          s3 = (case styleEl s2 of None \<Rightarrow> s2
                | Some e \<Rightarrow> update_style e (\<lambda>t. t\<lparr> in_head := False \<rparr>) s2)
      in s3\<lparr> styleEl := None \<rparr>)"
  by (simp add: onunload_def update_entries_def)

lemma onunload_fields:
  "leafButtonContainers (onunload s) = []"
  "styleEl (onunload s) = None"
  "length (divs (onunload s)) = length (divs s)"
  "length (styles (onunload s)) = length (styles s)"
  "settings (onunload s) = settings s"
  by (simp_all add: onunload_entries Let_def update_style_def split: option.split)

lemma onunload_divs:
  assumes "tracker_inv s" "i < length (divs s)"
  shows "parent (divs (onunload s) ! i) = None"
proof -
  let ?s1 = "update_entries (\<lambda>_. True) (\<lambda>_ c. c\<lparr> parent := None \<rparr>) (leafButtonContainers s) s"
  have unl: "divs (onunload s) = divs ?s1"
    by (simp add: onunload_entries Let_def update_style_def split: option.split)
  have dv: "distinct (map snd (leafButtonContainers s))"
    using assms(1) by (simp add: tracker_inv_def)
  show ?thesis
  proof (cases "i \<in> snd ` set (leafButtonContainers s)")
    case True
    then obtain lf where "(lf, i) \<in> set (leafButtonContainers s)" by auto
    from update_entries_at [OF dv this assms(2)] show ?thesis
      by (simp add: unl)
  next
    case False
    then have "parent (divs s ! i) = None"
      using assms by (auto simp: tracker_inv_def)
    with False show ?thesis by (simp add: unl update_entries_other)
  qed
qed

lemma styles_onunload:
  "styles (onunload s) =
     (case styleEl s of None \<Rightarrow> styles s
      | Some e \<Rightarrow> (styles s)[e := (styles s ! e)\<lparr> in_head := False \<rparr>])"
  by (simp add: onunload_entries Let_def update_style_def split: option.split)

lemma onunload_styles:
  assumes "tracker_inv s" "i < length (styles s)"
  shows "\<not> in_head (styles (onunload s) ! i)"
proof (cases "styleEl s")
  case None
  have "in_head (styles s ! i) \<longrightarrow> styleEl s = Some i"
    using assms by (simp add: tracker_inv_def)
  with None show ?thesis by (simp add: styles_onunload)
next
  case (Some e)
  have "in_head (styles s ! i) \<longrightarrow> e = i"
    using Some assms by (simp add: tracker_inv_def)
  then show ?thesis
    using assms(2) Some by (cases "i = e") (simp_all add: styles_onunload)
qed

text \<open>
  Claim C9. After \<^verbatim>\<open>onunload\<close> no overlay container is attached, the association table is
  empty, no style node is in the document head and \<^verbatim>\<open>styleEl\<close> is \<^verbatim>\<open>null\<close>, whatever number
  of panes was tracked.
\<close>

theorem onunload_cleanup:
  "tracker_inv s \<Longrightarrow>
   (\<forall>d \<in> set (divs (onunload s)). parent d = None) \<and>
   leafButtonContainers (onunload s) = [] \<and>
   (\<forall>t \<in> set (styles (onunload s)). \<not> in_head t) \<and>
   styleEl (onunload s) = None"
proof (intro conjI ballI)
  assume inv: "tracker_inv s"
  show "parent d = None" if "d \<in> set (divs (onunload s))" for d
  proof -
    from that obtain i where "i < length (divs (onunload s))" "d = divs (onunload s) ! i"
      by (metis in_set_conv_nth)
    with inv show ?thesis by (simp add: onunload_fields onunload_divs)
  qed
  show "\<not> in_head t" if "t \<in> set (styles (onunload s))" for t
  proof -
    from that obtain i where "i < length (styles (onunload s))" "t = styles (onunload s) ! i"
      by (metis in_set_conv_nth)
    with inv show ?thesis by (simp add: onunload_fields onunload_styles)
  qed
qed (simp_all add: onunload_fields)

theorem onunload_cleanup_witness:
  "tracker_inv two_panes_tracked \<and>
   leafButtonContainers two_panes_tracked = [(1, 0), (2, 1)] \<and>
   map parent (divs two_panes_tracked) = [Some 11, Some 12] \<and>
   map in_head (styles two_panes_tracked) = [True] \<and>
   map parent (divs (onunload two_panes_tracked)) = [None, None] \<and>
   leafButtonContainers (onunload two_panes_tracked) = [] \<and>
   map in_head (styles (onunload two_panes_tracked)) = [False] \<and>
   styleEl (onunload two_panes_tracked) = None"
proof -
  note clean = onunload_cleanup [OF tracker_inv_two_panes_tracked]
  obtain a b where ds: "divs (onunload two_panes_tracked) = [a, b]"
    using classes_two_panes_tracked(3) onunload_fields(3) [of two_panes_tracked]
    by (auto simp: numeral_2_eq_2 length_Suc_conv)
  obtain t where ts: "styles (onunload two_panes_tracked) = [t]"
    using classes_two_panes_tracked(4) onunload_fields(4) [of two_panes_tracked]
    by (auto simp: length_Suc_conv)
  from clean show ?thesis
    by (simp add: ds ts tracker_inv_two_panes_tracked two_panes_tracked_eq)
qed

lemma tracker_inv_onunload: "tracker_inv s \<Longrightarrow> tracker_inv (onunload s)"
  unfolding tracker_inv_def [of "onunload s"]
  by (simp add: onunload_fields onunload_divs onunload_styles)

lemma tracker_inv_updateStyle: "tracker_inv s \<Longrightarrow> tracker_inv (updateStyle s)"
proof (cases "styleEl s")
  case None
  then show "tracker_inv s \<Longrightarrow> tracker_inv (updateStyle s)" by (simp add: updateStyle_def)
next
  case (Some e)
  assume inv: "tracker_inv s"
  let ?f = "\<lambda>t. t\<lparr> textContent := Some (horizontalPadding (settings s), verticalPadding (settings s),
                            buttonSpacing (settings s), animationSpeed (settings s)) \<rparr>"
  let ?ts = "(styles s)[e := ?f (styles s ! e)]"
  have eq: "updateStyle s = s\<lparr> styles := ?ts \<rparr>"
    using Some by (simp add: updateStyle_def update_style_def)
  have old: "in_head (styles s ! i) \<longrightarrow> styleEl s = Some i" if "i < length (styles s)" for i
    using inv that by (simp add: tracker_inv_def)
  have "in_head (?ts ! i) = in_head (styles s ! i)" if "i < length (styles s)" for i
    using that by (cases "i = e") simp_all
  with old have new: "\<forall>i < length ?ts. in_head (?ts ! i) \<longrightarrow> styleEl s = Some i"
    by simp
  have rest: "distinct (map fst (leafButtonContainers s))"
    "distinct (map snd (leafButtonContainers s))"
    "\<forall>c \<in> snd ` set (leafButtonContainers s). c < length (divs s) \<and> parent (divs s ! c) \<noteq> None"
    "\<forall>i < length (divs s). parent (divs s ! i) \<noteq> None \<longrightarrow> i \<in> snd ` set (leafButtonContainers s)"
    using inv unfolding tracker_inv_def by blast+
  show "tracker_inv (updateStyle s)"
    unfolding eq tracker_inv_def using rest new by simp
qed

lemma tracker_inv_addStyle:
  assumes "tracker_inv s"
  shows "tracker_inv (addStyle s)"
proof -
  define s0 where "s0 = (case styleEl s of None \<Rightarrow> s
             | Some e \<Rightarrow> update_style e (\<lambda>t. t\<lparr> in_head := False \<rparr>) s)"
  let ?n = "length (styles s0)"
  have same: "leafButtonContainers s0 = leafButtonContainers s" "divs s0 = divs s"
    "length (styles s0) = length (styles s)"
    by (simp_all add: s0_def update_style_def split: option.split)
  have none: "\<not> in_head (styles s0 ! i)" if "i < ?n" for i
  proof (cases "styleEl s")
    case None
    with assms that show ?thesis by (auto simp: tracker_inv_def s0_def)
  next
    case (Some e)
    have "in_head (styles s ! i) \<longrightarrow> e = i"
      using Some assms that by (simp add: tracker_inv_def same)
    with Some that show ?thesis
      by (cases "i = e") (simp_all add: update_style_def s0_def)
  qed
  define s4 where "s4 = s0\<lparr> styleEl := Some ?n, styles := styles s0 @
      [\<lparr> in_head = True, id_attribute = Some ''scroll-control-styles'', textContent = None \<rparr>] \<rparr>"
  have eq: "addStyle s = updateStyle s4"
    unfolding addStyle_def s0_def [symmetric] createElement_style_def Let_def prod.case
    by (simp add: update_style_def s4_def)
  have s4: "leafButtonContainers s4 = leafButtonContainers s" "divs s4 = divs s"
    "styleEl s4 = Some ?n" "length (styles s4) = Suc ?n"
    "\<And>i. i < ?n \<Longrightarrow> styles s4 ! i = styles s0 ! i"
    by (simp_all add: s4_def same nth_append)
  have "in_head (styles s4 ! i) \<longrightarrow> styleEl s4 = Some i" if "i < length (styles s4)" for i
    using that none [of i] by (cases "i = ?n") (simp_all add: s4)
  then have new: "\<forall>i < length (styles s4). in_head (styles s4 ! i) \<longrightarrow> styleEl s4 = Some i"
    by blast
  have rest: "distinct (map fst (leafButtonContainers s))"
    "distinct (map snd (leafButtonContainers s))"
    "\<forall>c \<in> snd ` set (leafButtonContainers s). c < length (divs s) \<and> parent (divs s ! c) \<noteq> None"
    "\<forall>i < length (divs s). parent (divs s ! i) \<noteq> None \<longrightarrow> i \<in> snd ` set (leafButtonContainers s)"
    using assms unfolding tracker_inv_def by blast+
  have "tracker_inv s4"
    unfolding tracker_inv_def s4(1,2) using rest new by blast
  then show ?thesis
    unfolding eq by (rule tracker_inv_updateStyle)
qed

section \<open>Properties of the scroll actuator\<close>

text \<open>
  Claim C7. \<^verbatim>\<open>scrollToPosition\<close> does nothing without a view. In source mode it asks the
  editor to scroll line \<open>0\<close> (top) or line \<open>lineCount - 1\<close> (bottom) into view, centred. In
  preview mode it scrolls the preview element to offset \<open>0\<close> (top) or to its
  \<^verbatim>\<open>scrollHeight\<close> (bottom), smoothly if and only if \<^verbatim>\<open>useAnimations\<close> is set.
\<close>

theorem scrollToPosition_behaviour:
  "scrollToPosition st pos None = None \<and>
   (getMode v = Source \<longrightarrow>
      scrollToPosition st Top (Some v) = Some (EditorScrollIntoView 0 0 0 0 True) \<and>
      scrollToPosition st Bottom (Some v) =
        Some (EditorScrollIntoView (lineCount v - 1) 0 (lineCount v - 1) 0 True)) \<and>
   (getMode v = Preview \<and> previewEl_scrollHeight v = Some h \<longrightarrow>
      scrollToPosition st Top (Some v) =
        Some (PreviewScrollTo 0 (if useAnimations st then Smooth else Auto)) \<and>
      scrollToPosition st Bottom (Some v) =
        Some (PreviewScrollTo h (if useAnimations st then Smooth else Auto)))"
  by (simp add: scrollToPosition_def Let_def)

theorem scrollToPosition_behaviour_witness:
  "scrollToPosition DEFAULT_SETTINGS Bottom
     (Some \<lparr> getMode = Source, lineCount = 120, previewEl_scrollHeight = None \<rparr>) =
     Some (EditorScrollIntoView 119 0 119 0 True) \<and>
   scrollToPosition (DEFAULT_SETTINGS\<lparr> useAnimations := False \<rparr>) Bottom
     (Some \<lparr> getMode = Preview, lineCount = 120, previewEl_scrollHeight = Some 4000 \<rparr>) =
     Some (PreviewScrollTo 4000 Auto) \<and>
   scrollToPosition DEFAULT_SETTINGS Top
     (Some \<lparr> getMode = Preview, lineCount = 120, previewEl_scrollHeight = Some 4000 \<rparr>) =
     Some (PreviewScrollTo 0 Smooth)"
  using scrollToPosition_behaviour
      [of DEFAULT_SETTINGS Bottom
          "\<lparr> getMode = Source, lineCount = 120, previewEl_scrollHeight = None \<rparr>" 0]
    scrollToPosition_behaviour
      [of "DEFAULT_SETTINGS\<lparr> useAnimations := False \<rparr>" Bottom
          "\<lparr> getMode = Preview, lineCount = 120, previewEl_scrollHeight = Some 4000 \<rparr>" 4000]
    scrollToPosition_behaviour
      [of DEFAULT_SETTINGS Top
          "\<lparr> getMode = Preview, lineCount = 120, previewEl_scrollHeight = Some 4000 \<rparr>" 4000]
  by (simp add: DEFAULT_SETTINGS_def)

end
